theory Spec2Isabelle
  imports Complex_Main "HOL-Library.Word" "HOL-Library.Multiset"
begin

section \<open>Data model (internal/models)\<close>

text \<open>
  Go strings are \<^typ>\<open>string\<close>; \<open>type Ecosystem string\<close> is a string as well.
  A Go \<open>float64\<close> is a value of the datatype \<open>float64\<close> below: NaN, an infinity, or a
  finite value given by the real it denotes (the code only stores and compares scores, and
  on finite values Go's comparisons are those of the reals). \<open>time.Time\<close> values built by
  \<open>time.Parse("2006-01-02", _)\<close> are modelled by the number of days since 0001-01-01, so
  that the zero \<open>time.Time\<close> is \<open>0\<close>. Go's \<open>int\<close> indices are \<^typ>\<open>nat\<close>: slice lengths
  are far below \<open>2^63\<close>, so \<open>i + batchSize\<close> never wraps.
\<close>

type_synonym bytes = "8 word list"

datatype float64 = NaN | NegInf | Finite real | PosInf

text \<open>
  Go's comparisons \<open>x <= y\<close> and \<open>x < y\<close> on \<open>float64\<close>: false whenever an operand is NaN.
  \<open>x >= y\<close> is \<open>y <= x\<close> and \<open>x > y\<close> is \<open>y < x\<close>.
\<close>

fun f64_le :: "float64 \<Rightarrow> float64 \<Rightarrow> bool" where
  "f64_le NaN y = False"
| "f64_le x NaN = False"
| "f64_le NegInf y = True"
| "f64_le x PosInf = True"
| "f64_le (Finite a) (Finite b) = (a \<le> b)"
| "f64_le (Finite a) NegInf = False"
| "f64_le PosInf y = False"

fun f64_lt :: "float64 \<Rightarrow> float64 \<Rightarrow> bool" where
  "f64_lt NaN y = False"
| "f64_lt x NaN = False"
| "f64_lt (Finite a) (Finite b) = (a < b)"
| "f64_lt NegInf NegInf = False"
| "f64_lt NegInf y = True"
| "f64_lt PosInf y = False"
| "f64_lt x PosInf = True"
| "f64_lt (Finite a) NegInf = False"

definition f64_ge :: "float64 \<Rightarrow> float64 \<Rightarrow> bool" where
  "f64_ge x y = f64_le y x"

definition f64_gt :: "float64 \<Rightarrow> float64 \<Rightarrow> bool" where
  "f64_gt x y = f64_lt y x"

record Dependency =
  Name :: string
  Version :: string
  Ecosystem :: string
  SourceFile :: string
  Line :: int

record CVEInfo =
  ID :: string
  Summary :: string
  Source :: string

record KEVInfo =
  CVEID :: string
  VendorProject :: string
  Product :: string
  VulnerabilityName :: string
  DateAdded :: int
  DueDate :: int
  ShortDescription :: string
  RequiredAction :: string
  RansomwareUse :: bool
  CWEs :: "string list"
  Notes :: string
  EPSSScore :: float64
  EPSSPercentile :: float64

record EPSSScoreRec =
  Score :: float64
  Percentile :: float64

record Finding =
  Dependency :: Dependency
  CVEs :: "CVEInfo list"
  KEVs :: "KEVInfo list"

definition HasKEV :: "Finding \<Rightarrow> bool" where
  "HasKEV f = (0 < length (KEVs f))"

section \<open>Errors and HTTP exchanges\<close>

text \<open>
  Every \<open>return nil, err\<close> of the source is an \<open>Inl\<close> of the model. \<open>ErrWrap\<close> is
  \<open>fmt.Errorf("...: %w", err)\<close>. \<open>ErrIndex\<close> is the run-time panic of an out-of-range
  slice index.
\<close>

datatype error =
    ErrTransport
  | ErrStatus nat
  | ErrDecode
  | ErrRead
  | ErrFS
  | ErrIndex
  | ErrWrap string error

text \<open>
  One HTTP exchange as the clients see it: the transport fails, or a response arrives with
  a status code and a body; the body is given already through the JSON decoder, \<open>None\<close>
  when decoding fails.
\<close>

datatype 'a http_result = TransportError | Response nat "'a option"

section \<open>OSV batch client\<close>

record osvQuery =
  q_Name :: string
  q_Ecosystem :: string
  q_Version :: string

record osvVulnerability =
  vuln_ID :: string
  vuln_Aliases :: "string list"
  vuln_Summary :: string
  vuln_Details :: string

text \<open>The decoded \<open>osvBatchResponse\<close>: for each result its \<open>Vulns\<close>.\<close>

type_synonym osvResults = "osvVulnerability list list"

type_synonym osvServer = "osvQuery list \<Rightarrow> osvResults http_result"

definition HasPrefix :: "string \<Rightarrow> string \<Rightarrow> bool" where
  "HasPrefix s p = (take (length p) s = p)"

text \<open>
  \<open>extractCVEIDs\<close>: the state of the function is the \<open>seen\<close> set and the \<open>cves\<close> slice;
  \<open>add_cve\<close> is the body executed for the id and then for each alias.
\<close>

definition add_cve :: "string \<Rightarrow> string set \<times> string list \<Rightarrow> string set \<times> string list" where
  "add_cve s st =
     (case st of (seen, cves) \<Rightarrow>
        if HasPrefix s ''CVE-'' then
          (if s \<notin> seen then (insert s seen, cves @ [s]) else (seen, cves))
        else (seen, cves))"

definition extractCVEIDs :: "string \<Rightarrow> string list \<Rightarrow> string list" where
  "extractCVEIDs i aliases = snd (fold add_cve aliases (add_cve i ({}, [])))"

text \<open>
  \<open>queryChunk\<close>, the loop that fills \<open>results\<close>:
  \<open>results[j] = append(results[j], CVEInfo{...})\<close>, where a missing key reads as \<open>nil\<close>.
\<close>

definition append_at :: "(nat \<rightharpoonup> 'a list) \<Rightarrow> nat \<Rightarrow> 'a \<Rightarrow> (nat \<rightharpoonup> 'a list)" where
  "append_at m j x = m(j \<mapsto> (case m j of None \<Rightarrow> [] | Some xs \<Rightarrow> xs) @ [x])"

definition mkCVEInfo :: "osvVulnerability \<Rightarrow> string \<Rightarrow> CVEInfo" where
  "mkCVEInfo vuln cveID = \<lparr>ID = cveID, Summary = vuln_Summary vuln, Source = ''OSV''\<rparr>"

definition add_vuln :: "nat \<Rightarrow> osvVulnerability \<Rightarrow> (nat \<rightharpoonup> CVEInfo list) \<Rightarrow> (nat \<rightharpoonup> CVEInfo list)" where
  "add_vuln j vuln results =
     fold (\<lambda>cveID res. append_at res j (mkCVEInfo vuln cveID))
          (extractCVEIDs (vuln_ID vuln) (vuln_Aliases vuln)) results"

definition add_result :: "nat \<times> osvVulnerability list \<Rightarrow> (nat \<rightharpoonup> CVEInfo list) \<Rightarrow> (nat \<rightharpoonup> CVEInfo list)" where
  "add_result jr results = (case jr of (j, vulns) \<Rightarrow> fold (add_vuln j) vulns results)"

definition collect_results :: "osvResults \<Rightarrow> (nat \<rightharpoonup> CVEInfo list)" where
  "collect_results rs = fold add_result (enumerate 0 rs) Map.empty"

definition toQuery :: "Dependency \<Rightarrow> osvQuery" where
  "toQuery dep = \<lparr>q_Name = Name dep, q_Ecosystem = Ecosystem dep, q_Version = Version dep\<rparr>"

text \<open>
  \<open>queryChunk\<close>. \<open>json.Marshal\<close> of a request made of strings cannot fail, so its error
  branch has no counterpart here.
\<close>

definition queryChunk :: "osvServer \<Rightarrow> Dependency list \<Rightarrow> error + (nat \<rightharpoonup> CVEInfo list)" where
  "queryChunk srv deps =
     (case srv (map toQuery deps) of
        TransportError \<Rightarrow> Inl ErrTransport
      | Response status body \<Rightarrow>
          if status \<noteq> 200 then Inl (ErrStatus status)
          else (case body of
                  None \<Rightarrow> Inl ErrDecode
                | Some rs \<Rightarrow> Inr (collect_results rs)))"

definition batchSize :: nat where
  "batchSize = 100"

text \<open>
  The loop \<open>for j, cves := range chunkResults\<close> of \<open>QueryBatch\<close>. One iteration is
  \<open>merge_step\<close>. The iterations write pairwise distinct keys \<open>i + j\<close>, so the map after the
  loop, \<open>merge_chunk\<close>, does not depend on the order in which Go ranges over
  \<open>chunkResults\<close> (lemma \<open>merge_chunk_any_order\<close>).
\<close>

definition merge_step :: "nat \<Rightarrow> (nat \<rightharpoonup> 'a list) \<Rightarrow> nat \<Rightarrow> (nat \<rightharpoonup> 'a list) \<Rightarrow> (nat \<rightharpoonup> 'a list)" where
  "merge_step i chunkResults j results =
     (case chunkResults j of
        None \<Rightarrow> results
      | Some cves \<Rightarrow> if 0 < length cves then results(i + j \<mapsto> cves) else results)"

definition merge_chunk :: "nat \<Rightarrow> (nat \<rightharpoonup> 'a list) \<Rightarrow> (nat \<rightharpoonup> 'a list) \<Rightarrow> (nat \<rightharpoonup> 'a list)" where
  "merge_chunk i chunkResults results =
     (\<lambda>k. if i \<le> k then
             (case chunkResults (k - i) of
                None \<Rightarrow> results k
              | Some cves \<Rightarrow> if 0 < length cves then Some cves else results k)
           else results k)"

function QueryBatch_loop ::
  "osvServer \<Rightarrow> Dependency list \<Rightarrow> nat \<Rightarrow> (nat \<rightharpoonup> CVEInfo list) \<Rightarrow> error + (nat \<rightharpoonup> CVEInfo list)" where
  "QueryBatch_loop srv deps i results =
     (if i < length deps then
        (let e = (if length deps < i + batchSize then length deps else i + batchSize);
             chunk = take (e - i) (drop i deps)
         in case queryChunk srv chunk of
              Inl err \<Rightarrow> Inl (ErrWrap ''failed to query OSV batch'' err)
            | Inr chunkResults \<Rightarrow>
                QueryBatch_loop srv deps (i + batchSize) (merge_chunk i chunkResults results))
      else Inr results)"
  by pat_completeness auto
termination
  by (relation "measure (\<lambda>(srv, deps, i, results). length deps - i)") (auto simp: batchSize_def)

declare QueryBatch_loop.simps [simp del]

definition QueryBatch :: "osvServer \<Rightarrow> Dependency list \<Rightarrow> error + (nat \<rightharpoonup> CVEInfo list)" where
  "QueryBatch srv deps =
     (if length deps = 0 then Inr Map.empty else QueryBatch_loop srv deps 0 Map.empty)"

text \<open>
  An OSV service that answers each query on its own (\<open>one result per query, same order\<close>):
  the response to a chunk is the list of the answers to its queries.
\<close>

definition per_query :: "(osvQuery \<Rightarrow> osvVulnerability list) \<Rightarrow> osvServer" where
  "per_query r qs = Response 200 (Some (map r qs))"

text \<open>The CVE records one result contributes, in order.\<close>

definition cves_of :: "osvVulnerability list \<Rightarrow> CVEInfo list" where
  "cves_of vulns =
     concat (map (\<lambda>vuln. map (mkCVEInfo vuln) (extractCVEIDs (vuln_ID vuln) (vuln_Aliases vuln))) vulns)"

text \<open>No identifier of the vulnerabilities of one result has the prefix \<open>CVE-\<close>.\<close>

definition no_cve_ids :: "osvVulnerability list \<Rightarrow> bool" where
  "no_cve_ids vulns =
     (\<forall>v \<in> set vulns. \<not> HasPrefix (vuln_ID v) ''CVE-'' \<and>
        (\<forall>a \<in> set (vuln_Aliases v). \<not> HasPrefix a ''CVE-''))"

section \<open>EPSS client\<close>

record EPSSData =
  d_CVE :: string
  d_EPSS :: string
  d_Percentile :: string
  d_Date :: string

text \<open>
  The EPSS service: the exchange for the request that \<open>FetchScores\<close> issues at loop index
  \<open>i\<close> with the given URL. The index is an argument so that two requests of one call may
  fail or succeed independently, whatever their URLs. The body is the decoded
  \<open>EPSSResponse.Data\<close>.
\<close>

type_synonym epssServer = "nat \<Rightarrow> string \<Rightarrow> EPSSData list http_result"

definition epssURL :: string where
  "epssURL = ''https://api.first.org/data/v1/epss''"

fun Join :: "string list \<Rightarrow> string \<Rightarrow> string" where
  "Join [] sep = []"
| "Join [x] sep = x"
| "Join (x # y # ys) sep = x @ sep @ Join (y # ys) sep"

definition chunkSize :: nat where
  "chunkSize = 100"

text \<open>
  The body of the loop over \<open>epssResp.Data\<close>. \<open>ParseFloat\<close> is the first result of
  \<open>strconv.ParseFloat(_, 64)\<close>; its error is discarded by the source. The value may be
  any \<open>float64\<close>: \<open>ParseFloat\<close> accepts \<open>"NaN"\<close> and \<open>"Inf"\<close>.
\<close>

definition store_row ::
  "(string \<Rightarrow> float64) \<Rightarrow> EPSSData \<Rightarrow> (string \<rightharpoonup> EPSSScoreRec) \<Rightarrow> (string \<rightharpoonup> EPSSScoreRec)" where
  "store_row ParseFloat d scores =
     (let score = ParseFloat (d_EPSS d); percentile = ParseFloat (d_Percentile d)
      in scores(d_CVE d \<mapsto> \<lparr>Score = score, Percentile = percentile\<rparr>))"

definition chunk_url :: "string list \<Rightarrow> nat \<Rightarrow> string" where
  "chunk_url cveIDs i =
     (let e = (if length cveIDs < i + chunkSize then length cveIDs else i + chunkSize);
          chunk = take (e - i) (drop i cveIDs)
      in epssURL @ ''?cve='' @ Join chunk '','')"

function FetchScores_loop ::
  "(string \<Rightarrow> float64) \<Rightarrow> epssServer \<Rightarrow> string list \<Rightarrow> nat \<Rightarrow> (string \<rightharpoonup> EPSSScoreRec)
     \<Rightarrow> (string \<rightharpoonup> EPSSScoreRec) \<times> error option" where
  "FetchScores_loop ParseFloat srv cveIDs i scores =
     (if i < length cveIDs then
        (case srv i (chunk_url cveIDs i) of
           TransportError \<Rightarrow> FetchScores_loop ParseFloat srv cveIDs (i + chunkSize) scores
         | Response status body \<Rightarrow>
             if status \<noteq> 200 then FetchScores_loop ParseFloat srv cveIDs (i + chunkSize) scores
             else (case body of
                     None \<Rightarrow> FetchScores_loop ParseFloat srv cveIDs (i + chunkSize) scores
                   | Some rows \<Rightarrow>
                       FetchScores_loop ParseFloat srv cveIDs (i + chunkSize)
                         (fold (store_row ParseFloat) rows scores)))
      else (scores, None))"
  by pat_completeness auto
termination
  by (relation "measure (\<lambda>(pf, srv, cveIDs, i, scores). length cveIDs - i)")
     (auto simp: chunkSize_def)

declare FetchScores_loop.simps [simp del]

definition FetchScores ::
  "(string \<Rightarrow> float64) \<Rightarrow> epssServer \<Rightarrow> string list \<Rightarrow> (string \<rightharpoonup> EPSSScoreRec) \<times> error option" where
  "FetchScores ParseFloat srv cveIDs =
     (if length cveIDs = 0 then (Map.empty, None)
      else FetchScores_loop ParseFloat srv cveIDs 0 Map.empty)"

text \<open>
  The rows that the exchange at loop index \<open>i\<close> delivers to the score map: those of a
  decoded 200 response, none when the chunk fails at any stage.
\<close>

definition rows_at :: "epssServer \<Rightarrow> string list \<Rightarrow> nat \<Rightarrow> EPSSData list" where
  "rows_at srv cveIDs i =
     (case srv i (chunk_url cveIDs i) of
        TransportError \<Rightarrow> []
      | Response status body \<Rightarrow>
          if status \<noteq> 200 then [] else (case body of None \<Rightarrow> [] | Some rows \<Rightarrow> rows))"

text \<open>The loop indices of \<open>FetchScores\<close> from \<open>i\<close> on: \<open>i, i + 100, ...\<close> below the length.\<close>

definition chunk_starts :: "nat \<Rightarrow> nat \<Rightarrow> nat list" where
  "chunk_starts i n = map (\<lambda>c. i + c * chunkSize) [0..<(n - i + chunkSize - 1) div chunkSize]"

definition chunk_fails :: "epssServer \<Rightarrow> string list \<Rightarrow> nat \<Rightarrow> bool" where
  "chunk_fails srv cveIDs i =
     (case srv i (chunk_url cveIDs i) of
        TransportError \<Rightarrow> True
      | Response status body \<Rightarrow> status \<noteq> 200 \<or> body = None)"

text \<open>Every request to the EPSS service fails at some stage.\<close>

definition epss_unreachable :: "epssServer \<Rightarrow> bool" where
  "epss_unreachable srv =
     (\<forall>i url. case srv i url of
                 TransportError \<Rightarrow> True
               | Response status body \<Rightarrow> status \<noteq> 200 \<or> body = None)"

section \<open>TTL cache (internal/cache)\<close>

text \<open>
  Instants and durations are nanosecond counts; the differences the code takes lie within
  the range of \<open>time.Duration\<close>. The file system holds the directories that exist and, for
  each path, the file's content and modification time. A path is kept as
  \<open>filepath.Join\<close> receives it: the directory and the file name. \<open>os.WriteFile\<close> fails when
  the directory does not exist.
\<close>

record Cache =
  Dir :: string
  TTL :: int

record cache_file =
  content :: bytes
  modTime :: int

type_synonym path = "string \<times> string"

record fsys =
  dirs :: "string set"
  files :: "path \<rightharpoonup> cache_file"

definition os_Stat :: "fsys \<Rightarrow> path \<Rightarrow> error + cache_file" where
  "os_Stat fs p = (case files fs p of None \<Rightarrow> Inl ErrFS | Some f \<Rightarrow> Inr f)"

definition os_ReadFile :: "fsys \<Rightarrow> path \<Rightarrow> error + bytes" where
  "os_ReadFile fs p = (case files fs p of None \<Rightarrow> Inl ErrFS | Some f \<Rightarrow> Inr (content f))"

definition os_WriteFile :: "fsys \<Rightarrow> int \<Rightarrow> path \<Rightarrow> bytes \<Rightarrow> error + fsys" where
  "os_WriteFile fs now p data =
     (if fst p \<in> dirs fs
      then Inr (fs\<lparr>files := (files fs)(p \<mapsto> \<lparr>content = data, modTime = now\<rparr>)\<rparr>)
      else Inl ErrFS)"

text \<open>
  \<open>keyToFilename\<close>: \<open>sha256hex\<close> stands for
  \<open>hex.EncodeToString(sha256.Sum256(key)[:16])\<close>.
\<close>

definition keyToFilename :: "(string \<Rightarrow> string) \<Rightarrow> string \<Rightarrow> string" where
  "keyToFilename sha256hex key = sha256hex key @ ''.json''"

definition Path :: "(string \<Rightarrow> string) \<Rightarrow> Cache \<Rightarrow> string \<Rightarrow> path" where
  "Path sha256hex c key = (Dir c, keyToFilename sha256hex key)"

definition time_Since :: "int \<Rightarrow> int \<Rightarrow> int" where
  "time_Since now t = now - t"

text \<open>\<open>Get\<close> at the instant \<open>now\<close>; the \<open>nil\<close> slice is \<open>[]\<close>.\<close>

definition Get :: "(string \<Rightarrow> string) \<Rightarrow> Cache \<Rightarrow> fsys \<Rightarrow> int \<Rightarrow> string \<Rightarrow> bytes \<times> bool" where
  "Get sha256hex c fs now key =
     (let path = Path sha256hex c key
      in case os_Stat fs path of
           Inl err \<Rightarrow> ([], False)
         | Inr info \<Rightarrow>
             if TTL c < time_Since now (modTime info) then ([], False)
             else (case os_ReadFile fs path of
                     Inl err \<Rightarrow> ([], False)
                   | Inr data \<Rightarrow> (data, True)))"

text \<open>\<open>Set\<close> at the instant \<open>now\<close>: the error, or the file system after the write.\<close>

definition Set :: "(string \<Rightarrow> string) \<Rightarrow> Cache \<Rightarrow> fsys \<Rightarrow> int \<Rightarrow> string \<Rightarrow> bytes \<Rightarrow> error + fsys" where
  "Set sha256hex c fs now key data = os_WriteFile fs now (Path sha256hex c key) data"

section \<open>KEV catalog client (internal/clients/kev.go)\<close>

record VulnerabilityJSON =
  v_CVEID :: string
  v_VendorProject :: string
  v_Product :: string
  v_VulnerabilityName :: string
  v_DateAdded :: string
  v_ShortDescription :: string
  v_RequiredAction :: string
  v_DueDate :: string
  v_KnownRansomwareCampaignUse :: string
  v_Notes :: string
  v_CWEs :: "string list"

record KEVResponse =
  Title :: string
  CatalogVersion :: string
  DateReleased :: string
  Count :: int
  Vulnerabilities :: "VulnerabilityJSON list"

definition kevURL :: string where
  "kevURL = ''https://raw.githubusercontent.com/cisagov/kev-data/main/known_exploited_vulnerabilities.json''"

text \<open>
  The \<open>KEVInfo\<close> built in the loop of \<open>parseKEVData\<close>. \<open>time_Parse\<close> stands for
  \<open>time.Parse("2006-01-02", _)\<close>, \<open>None\<close> when it returns an error; the source discards
  the error and keeps the zero \<open>time.Time\<close> returned with it. The EPSS fields are not
  assigned and hold the zero value.
\<close>

definition toKEVInfo :: "(string \<Rightarrow> int option) \<Rightarrow> VulnerabilityJSON \<Rightarrow> KEVInfo" where
  "toKEVInfo time_Parse v =
     \<lparr>CVEID = v_CVEID v,
      VendorProject = v_VendorProject v,
      Product = v_Product v,
      VulnerabilityName = v_VulnerabilityName v,
      DateAdded = (case time_Parse (v_DateAdded v) of None \<Rightarrow> 0 | Some t \<Rightarrow> t),
      DueDate = (case time_Parse (v_DueDate v) of None \<Rightarrow> 0 | Some t \<Rightarrow> t),
      ShortDescription = v_ShortDescription v,
      RequiredAction = v_RequiredAction v,
      RansomwareUse = (v_KnownRansomwareCampaignUse v = ''Known''),
      CWEs = v_CWEs v,
      Notes = v_Notes v,
      EPSSScore = Finite 0,
      EPSSPercentile = Finite 0\<rparr>"

definition catalog_put ::
  "(string \<Rightarrow> int option) \<Rightarrow> VulnerabilityJSON \<Rightarrow> (string \<rightharpoonup> KEVInfo) \<Rightarrow> (string \<rightharpoonup> KEVInfo)" where
  "catalog_put time_Parse v catalog = catalog(v_CVEID v \<mapsto> toKEVInfo time_Parse v)"

text \<open>\<open>json_Unmarshal\<close> stands for \<open>json.Unmarshal\<close> into a \<open>KEVResponse\<close>.\<close>

definition parseKEVData ::
  "(bytes \<Rightarrow> KEVResponse option) \<Rightarrow> (string \<Rightarrow> int option) \<Rightarrow> bytes \<Rightarrow> error + (string \<rightharpoonup> KEVInfo)" where
  "parseKEVData json_Unmarshal time_Parse data =
     (case json_Unmarshal data of
        None \<Rightarrow> Inl (ErrWrap ''failed to parse KEV data'' ErrDecode)
      | Some kevResp \<Rightarrow> Inr (fold (catalog_put time_Parse) (Vulnerabilities kevResp) Map.empty))"

text \<open>
  \<open>FetchKEVCatalog\<close>. The HTTP exchange is given with the body as \<open>io.ReadAll\<close> returns
  it, \<open>None\<close> when reading fails. \<open>os.ReadFile\<close> never returns a \<open>nil\<close> slice with a
  \<open>nil\<close> error, so \<open>data == nil\<close> holds exactly when the cache gave nothing. The result of
  \<open>c.cache.Set\<close> is discarded by the source.
\<close>

definition FetchKEVCatalog ::
  "(string \<Rightarrow> string) \<Rightarrow> (bytes \<Rightarrow> KEVResponse option) \<Rightarrow> (string \<Rightarrow> int option) \<Rightarrow>
   Cache option \<Rightarrow> bytes http_result \<Rightarrow> fsys \<Rightarrow> int \<Rightarrow> (error + (string \<rightharpoonup> KEVInfo)) \<times> fsys" where
  "FetchKEVCatalog sha256hex json_Unmarshal time_Parse cache http fs now =
     (let (cached, ok) = (case cache of None \<Rightarrow> ([], False)
                                      | Some c \<Rightarrow> Get sha256hex c fs now kevURL)
      in if ok then (parseKEVData json_Unmarshal time_Parse cached, fs)
         else (case http of
                 TransportError \<Rightarrow> (Inl (ErrWrap ''failed to fetch KEV data'' ErrTransport), fs)
               | Response status body \<Rightarrow>
                   if status \<noteq> 200 then (Inl (ErrStatus status), fs)
                   else (case body of
                           None \<Rightarrow> (Inl (ErrWrap ''failed to read response body'' ErrRead), fs)
                         | Some data \<Rightarrow>
                             (let fs' = (case cache of
                                           None \<Rightarrow> fs
                                         | Some c \<Rightarrow>
                                             (case Set sha256hex c fs now kevURL data of
                                                Inl err \<Rightarrow> fs
                                              | Inr fs1 \<Rightarrow> fs1))
                              in (parseKEVData json_Unmarshal time_Parse data, fs')))))"

section \<open>Scanner\<close>

record Config =
  Paths :: "string list"
  OutputFormat :: string
  OutputFile :: string
  FailOnKEV :: bool
  EPSSThreshold :: float64
  CacheTTL :: int
  NoCache :: bool
  Timeout :: int
  MaxConcurrent :: int

text \<open>
  A \<open>range\<close> loop over a Go map visits every key of the map once, in an order the language
  leaves unspecified: \<open>valid_range ks m\<close> says that \<open>ks\<close> is such an order for \<open>m\<close>.
\<close>

definition valid_range :: "nat list \<Rightarrow> (nat \<rightharpoonup> 'a) \<Rightarrow> bool" where
  "valid_range ks m = (distinct ks \<and> set ks = dom m)"

text \<open>
  Step 4. \<open>match_cve\<close> is the body of \<open>for _, cve := range cves\<close> on the pair
  \<open>(finding.KEVs, allKEVCVEs)\<close>; \<open>crossref_step\<close> is one iteration of the outer loop for
  the key \<open>depIdx\<close> on the pair \<open>(findings, allKEVCVEs)\<close>, where \<open>deps[depIdx]\<close> panics
  out of range; \<open>crossref\<close> runs the iterations in the order given. The loop visits keys
  of the map only; for a key the map does not hold, \<open>crossref_step\<close> changes nothing.
\<close>

definition match_cve ::
  "(string \<rightharpoonup> KEVInfo) \<Rightarrow> CVEInfo \<Rightarrow> KEVInfo list \<times> string list \<Rightarrow> KEVInfo list \<times> string list" where
  "match_cve kevCatalog cve st =
     (case st of (kevs, allKEVCVEs) \<Rightarrow>
        (case kevCatalog (ID cve) of
           Some kevInfo \<Rightarrow> (kevs @ [kevInfo], allKEVCVEs @ [ID cve])
         | None \<Rightarrow> (kevs, allKEVCVEs)))"

definition crossref_step ::
  "Dependency list \<Rightarrow> (string \<rightharpoonup> KEVInfo) \<Rightarrow> (nat \<rightharpoonup> CVEInfo list) \<Rightarrow> nat \<Rightarrow>
   Finding list \<times> string list \<Rightarrow> error + Finding list \<times> string list" where
  "crossref_step deps kevCatalog cvesByDep depIdx st =
     (case st of (findings, allKEVCVEs) \<Rightarrow>
        (case cvesByDep depIdx of
           None \<Rightarrow> Inr (findings, allKEVCVEs)
         | Some cves \<Rightarrow>
             if depIdx < length deps then
               (let dep = deps ! depIdx;
                    (kevs, allKEVCVEs') = fold (match_cve kevCatalog) cves ([], allKEVCVEs);
                    finding = \<lparr>Dependency = dep, CVEs = cves, KEVs = kevs\<rparr>
                in Inr (if 0 < length kevs then findings @ [finding] else findings, allKEVCVEs'))
             else Inl ErrIndex))"

fun crossref ::
  "Dependency list \<Rightarrow> (string \<rightharpoonup> KEVInfo) \<Rightarrow> (nat \<rightharpoonup> CVEInfo list) \<Rightarrow> nat list \<Rightarrow>
   Finding list \<times> string list \<Rightarrow> error + Finding list \<times> string list" where
  "crossref deps kevCatalog cvesByDep [] st = Inr st"
| "crossref deps kevCatalog cvesByDep (depIdx # rest) st =
     (case crossref_step deps kevCatalog cvesByDep depIdx st of
        Inl err \<Rightarrow> Inl err
      | Inr st' \<Rightarrow> crossref deps kevCatalog cvesByDep rest st')"

text \<open>
  Step 5. The loops over \<open>findings[i].KEVs[j]\<close> assign through the indices; every
  \<open>KEVs\<close> slice was built by \<open>append\<close> for its own finding and \<open>KEVInfo\<close> is a value
  type, so no entry is shared and the loops are a map over the entries. The second
  component of \<open>enrich_stage\<close> records the calls of the EPSS client: the argument of each
  call of \<open>FetchScores\<close>.
\<close>

definition enrich_kev :: "(string \<rightharpoonup> EPSSScoreRec) \<Rightarrow> KEVInfo \<Rightarrow> KEVInfo" where
  "enrich_kev epssScores kev =
     (case epssScores (CVEID kev) of
        Some score \<Rightarrow> kev\<lparr>EPSSScore := Score score, EPSSPercentile := Percentile score\<rparr>
      | None \<Rightarrow> kev)"

definition enrich :: "(string \<rightharpoonup> EPSSScoreRec) \<Rightarrow> Finding list \<Rightarrow> Finding list" where
  "enrich epssScores findings =
     map (\<lambda>f. f\<lparr>KEVs := map (enrich_kev epssScores) (KEVs f)\<rparr>) findings"

definition enrich_stage ::
  "(string \<Rightarrow> float64) \<Rightarrow> epssServer \<Rightarrow> Finding list \<times> string list \<Rightarrow> Finding list \<times> string list list" where
  "enrich_stage ParseFloat srv st =
     (case st of (findings, allKEVCVEs) \<Rightarrow>
        if 0 < length allKEVCVEs then
          (let epssScores = fst (FetchScores ParseFloat srv allKEVCVEs)
           in (enrich epssScores findings, [allKEVCVEs]))
        else (findings, []))"

text \<open>Step 6.\<close>

definition keep_kev :: "float64 \<Rightarrow> KEVInfo \<Rightarrow> KEVInfo list \<Rightarrow> KEVInfo list" where
  "keep_kev threshold kev filteredKEVs =
     (if f64_ge (EPSSScore kev) threshold then filteredKEVs @ [kev] else filteredKEVs)"

definition keep_finding :: "float64 \<Rightarrow> Finding \<Rightarrow> Finding list \<Rightarrow> Finding list" where
  "keep_finding threshold f filtered =
     (let filteredKEVs = fold (keep_kev threshold) (KEVs f) []
      in if 0 < length filteredKEVs then filtered @ [f\<lparr>KEVs := filteredKEVs\<rparr>] else filtered)"

definition filter_stage :: "float64 \<Rightarrow> Finding list \<Rightarrow> Finding list" where
  "filter_stage threshold findings =
     (if f64_gt threshold (Finite 0) then fold (keep_finding threshold) findings []
      else findings)"

text \<open>
  What a scan meets outside the program: the result of \<open>discoverDependencies\<close> (the walk
  of the file system and the manifest parsers), the library functions, the clock, the three
  services, and \<open>range_order\<close>, the order in which \<open>for depIdx, cves := range cvesByDep\<close>
  visits the keys of the map. The Go language leaves that order unspecified; it may differ
  from one run to the next.
\<close>

record env =
  discover :: "error + Dependency list"
  sha256hex :: "string \<Rightarrow> string"
  json_Unmarshal :: "bytes \<Rightarrow> KEVResponse option"
  time_Parse :: "string \<Rightarrow> int option"
  ParseFloat :: "string \<Rightarrow> float64"
  now :: int
  kev_http :: "bytes http_result"
  osv_http :: osvServer
  epss_http :: epssServer
  range_order :: "(nat \<rightharpoonup> CVEInfo list) \<Rightarrow> nat list"

text \<open>
  \<open>Scan\<close>, for a scanner with the given configuration and cache (\<open>None\<close> when the KEV
  client has no cache). Beside the returned value, a run has two effects: the calls of the
  EPSS client and the file system it leaves.
\<close>

record Scanner =
  config :: Config
  cache :: "Cache option"

record run =
  result :: "error + Finding list"
  epss_calls :: "string list list"
  fs_after :: fsys

definition Scan :: "Scanner \<Rightarrow> env \<Rightarrow> fsys \<Rightarrow> run" where
  "Scan s w fs =
     (case discover w of
        Inl err \<Rightarrow>
          \<lparr>result = Inl (ErrWrap ''failed to discover dependencies'' err), epss_calls = [], fs_after = fs\<rparr>
      | Inr deps \<Rightarrow>
          if length deps = 0 then \<lparr>result = Inr [], epss_calls = [], fs_after = fs\<rparr>
          else
            (case FetchKEVCatalog (sha256hex w) (json_Unmarshal w) (time_Parse w) (cache s)
                    (kev_http w) fs (now w) of
               (Inl err, fs') \<Rightarrow>
                 \<lparr>result = Inl (ErrWrap ''failed to fetch KEV catalog'' err), epss_calls = [], fs_after = fs'\<rparr>
             | (Inr kevCatalog, fs') \<Rightarrow>
                 (case QueryBatch (osv_http w) deps of
                    Inl err \<Rightarrow>
                      \<lparr>result = Inl (ErrWrap ''failed to query OSV'' err), epss_calls = [], fs_after = fs'\<rparr>
                  | Inr cvesByDep \<Rightarrow>
                      (case crossref deps kevCatalog cvesByDep (range_order w cvesByDep) ([], []) of
                         Inl err \<Rightarrow> \<lparr>result = Inl err, epss_calls = [], fs_after = fs'\<rparr>
                       | Inr st \<Rightarrow>
                           (let (findings, calls) = enrich_stage (ParseFloat w) (epss_http w) st
                            in \<lparr>result = Inr (filter_stage (EPSSThreshold (config s)) findings),
                                epss_calls = calls, fs_after = fs'\<rparr>)))))"

text \<open>
  The finding that Step 4 builds for the key \<open>k\<close>, and the CVE IDs it appends to the
  matched list.
\<close>

definition finding_of ::
  "Dependency list \<Rightarrow> (string \<rightharpoonup> KEVInfo) \<Rightarrow> (nat \<rightharpoonup> CVEInfo list) \<Rightarrow> nat \<Rightarrow> Finding" where
  "finding_of deps kevCatalog cvesByDep k =
     (let cves = (case cvesByDep k of None \<Rightarrow> [] | Some cs \<Rightarrow> cs)
      in \<lparr>Dependency = deps ! k, CVEs = cves,
          KEVs = concat (map (\<lambda>cve. case kevCatalog (ID cve) of None \<Rightarrow> [] | Some kev \<Rightarrow> [kev]) cves)\<rparr>)"

definition matched_of :: "(string \<rightharpoonup> KEVInfo) \<Rightarrow> (nat \<rightharpoonup> CVEInfo list) \<Rightarrow> nat \<Rightarrow> string list" where
  "matched_of kevCatalog cvesByDep k =
     (let cves = (case cvesByDep k of None \<Rightarrow> [] | Some cs \<Rightarrow> cs)
      in filter (\<lambda>c. kevCatalog c \<noteq> None) (map ID cves))"

definition total_kevs :: "Finding list \<Rightarrow> nat" where
  "total_kevs findings = sum_list (map (\<lambda>f. length (KEVs f)) findings)"

text \<open>The KEV entries of a finding that Step 6 keeps under a positive threshold.\<close>

definition kept :: "float64 \<Rightarrow> Finding \<Rightarrow> KEVInfo list" where
  "kept t f = filter (\<lambda>k. f64_ge (EPSSScore k) t) (KEVs f)"

section \<open>Example inputs\<close>

definition django :: Dependency where
  "django = \<lparr>Name = ''django'', Version = ''3.1.0'', Ecosystem = ''PyPI'',
             SourceFile = ''requirements.txt'', Line = 1\<rparr>"

definition flask :: Dependency where
  "flask = \<lparr>Name = ''flask'', Version = ''2.0.0'', Ecosystem = ''PyPI'',
            SourceFile = ''requirements.txt'', Line = 2\<rparr>"

definition osv_demo :: "osvQuery \<Rightarrow> osvVulnerability list" where
  "osv_demo q =
     (if q_Name q = ''django''
      then [\<lparr>vuln_ID = ''GHSA-fvgf-6h6h-3322'', vuln_Aliases = [''CVE-2021-3281'', ''CVE-2021-3281''],
             vuln_Summary = ''Directory traversal'', vuln_Details = []\<rparr>]
      else [])"

definition osv_two :: osvServer where
  "osv_two qs = Response 200 (Some [[\<lparr>vuln_ID = ''CVE-2021-3281'', vuln_Aliases = [],
             vuln_Summary = ''Directory traversal'', vuln_Details = []\<rparr>], 
             [\<lparr>vuln_ID = ''GHSA-fvgf-6h6h-3322'', vuln_Aliases = [],
             vuln_Summary = ''Advisory only'', vuln_Details = []\<rparr>]])"

definition osv_all :: "osvQuery \<Rightarrow> osvVulnerability list" where
  "osv_all q =
     [\<lparr>vuln_ID = ''CVE-2021-3281'', vuln_Aliases = [], vuln_Summary = ''Directory traversal'',
       vuln_Details = []\<rparr>]"

definition cve_3281 :: CVEInfo where
  "cve_3281 = \<lparr>ID = ''CVE-2021-3281'', Summary = ''Directory traversal'', Source = ''OSV''\<rparr>"

definition vuln_3281 :: VulnerabilityJSON where
  "vuln_3281 =
     \<lparr>v_CVEID = ''CVE-2021-3281'', v_VendorProject = ''Django'', v_Product = ''Django'',
      v_VulnerabilityName = ''Directory traversal'', v_DateAdded = ''2021-13-45'',
      v_ShortDescription = [], v_RequiredAction = ''Apply updates'', v_DueDate = ''soon'',
      v_KnownRansomwareCampaignUse = ''Unknown'', v_Notes = [], v_CWEs = []\<rparr>"

definition vuln_3281_old :: VulnerabilityJSON where
  "vuln_3281_old = vuln_3281\<lparr>v_VendorProject := ''Older entry''\<rparr>"

definition kev_doc :: KEVResponse where
  "kev_doc =
     \<lparr>Title = ''CISA KEV'', CatalogVersion = ''1'', DateReleased = ''2021-02-02'', Count = 2,
      Vulnerabilities = [vuln_3281_old, vuln_3281]\<rparr>"

definition no_date :: "string \<Rightarrow> int option" where
  "no_date s = None"

definition kev_3281 :: KEVInfo where
  "kev_3281 = toKEVInfo no_date vuln_3281"

definition demo_catalog :: "string \<rightharpoonup> KEVInfo" where
  "demo_catalog = Map.empty(''CVE-2021-3281'' \<mapsto> kev_3281)"

definition demo_ParseFloat :: "string \<Rightarrow> float64" where
  "demo_ParseFloat s =
     (if s = ''0.005'' then Finite (1 / 200)
      else if s = ''0.2'' then Finite (1 / 5)
      else if s = ''NaN'' then NaN
      else Finite 0)"

definition epss_row :: EPSSData where
  "epss_row = \<lparr>d_CVE = ''CVE-2021-3281'', d_EPSS = ''0.005'', d_Percentile = ''0.2'',
               d_Date = ''2021-02-02''\<rparr>"

definition epss_up :: epssServer where
  "epss_up i url = Response 200 (Some [epss_row])"

definition epss_down :: epssServer where
  "epss_down i url = TransportError"

definition demo_fs :: fsys where
  "demo_fs = \<lparr>dirs = {''/home/u/.cache/kev-checker''}, files = Map.empty\<rparr>"

definition demo_cache :: Cache where
  "demo_cache = \<lparr>Dir = ''/home/u/.cache/kev-checker'', TTL = 86400000000000\<rparr>"

definition demo_env :: env where
  "demo_env =
     \<lparr>discover = Inr [django, flask],
      sha256hex = (\<lambda>key. ''00112233445566778899aabbccddeeff''),
      json_Unmarshal = (\<lambda>data. Some kev_doc),
      time_Parse = no_date,
      ParseFloat = demo_ParseFloat,
      now = 1000,
      kev_http = Response 200 (Some []),
      osv_http = per_query osv_all,
      epss_http = epss_up,
      range_order = (\<lambda>m. [0, Suc 0])\<rparr>"

definition demo_scanner :: Scanner where
  "demo_scanner =
     \<lparr>config = \<lparr>Paths = [''.''], OutputFormat = ''terminal'', OutputFile = [], FailOnKEV = True,
                 EPSSThreshold = Finite 0, CacheTTL = 86400000000000, NoCache = True,
                 Timeout = 60000000000, MaxConcurrent = 10\<rparr>,
      cache = None\<rparr>"

definition demo_cves :: "nat \<rightharpoonup> CVEInfo list" where
  "demo_cves = Map.empty(0 \<mapsto> [cve_3281], Suc 0 \<mapsto> [cve_3281])"

definition finding_django :: Finding where
  "finding_django = \<lparr>Dependency = django, CVEs = [cve_3281], KEVs = [kev_3281]\<rparr>"

definition finding_flask :: Finding where
  "finding_flask = \<lparr>Dependency = flask, CVEs = [cve_3281], KEVs = [kev_3281]\<rparr>"

definition scored :: "float64 \<Rightarrow> float64 \<Rightarrow> Finding \<Rightarrow> Finding" where
  "scored sc pc f = f\<lparr>KEVs := map (\<lambda>kev. kev\<lparr>EPSSScore := sc, EPSSPercentile := pc\<rparr>) (KEVs f)\<rparr>"

definition demo_env_rev :: env where
  "demo_env_rev = demo_env\<lparr>range_order := (\<lambda>m. [Suc 0, 0])\<rparr>"

definition demo_env_down :: env where
  "demo_env_down = demo_env\<lparr>epss_http := epss_down\<rparr>"

definition demo_hash :: "string \<Rightarrow> string" where
  "demo_hash key = ''00112233445566778899aabbccddeeff''"

definition demo_fs_written :: fsys where
  "demo_fs_written =
     demo_fs\<lparr>files := Map.empty(Path demo_hash demo_cache kevURL \<mapsto>
                           \<lparr>content = [1, 2, 3], modTime = 1000\<rparr>)\<rparr>"

definition kev_3281_scored :: KEVInfo where
  "kev_3281_scored = kev_3281\<lparr>EPSSScore := Finite (1 / 200), EPSSPercentile := Finite (1 / 5)\<rparr>"

definition demo_scores :: "string \<rightharpoonup> EPSSScoreRec" where
  "demo_scores = Map.empty(''CVE-2021-3281'' \<mapsto> \<lparr>Score = Finite (1 / 200), Percentile = Finite (1 / 5)\<rparr>)"

definition epss_row_nan :: EPSSData where
  "epss_row_nan = \<lparr>d_CVE = ''CVE-2021-3281'', d_EPSS = ''NaN'', d_Percentile = ''0.2'',
                   d_Date = ''2021-02-02''\<rparr>"

definition epss_nan :: epssServer where
  "epss_nan i url = Response 200 (Some [epss_row_nan])"

definition demo_env_nan :: env where
  "demo_env_nan = demo_env\<lparr>epss_http := epss_nan\<rparr>"

definition demo_scanner_tenth :: Scanner where
  "demo_scanner_tenth =
     demo_scanner\<lparr>config := (config demo_scanner)\<lparr>EPSSThreshold := Finite (1 / 10)\<rparr>\<rparr>"

definition kev_3281_nan :: KEVInfo where
  "kev_3281_nan = kev_3281\<lparr>EPSSScore := NaN, EPSSPercentile := Finite (1 / 5)\<rparr>"

text \<open>
  An EPSS service whose first chunk fails in transport and whose second chunk, requested at
  loop index 100, succeeds; and a list of 101 CVE IDs for it.
\<close>

definition epss_second_only :: epssServer where
  "epss_second_only i url =
     (if i = 0 then TransportError
      else if i = 100 then Response 200 (Some [epss_row])
      else Response 503 None)"

definition ids_101 :: "string list" where
  "ids_101 = replicate 100 ''CVE-1999-0001'' @ [''CVE-2021-3281'']"

section \<open>The OSV client: lemmas\<close>

lemma fold_append_at:
  "fold (\<lambda>x res. append_at res j (f x)) xs m =
     (if xs = [] then m else m(j \<mapsto> (case m j of None \<Rightarrow> [] | Some ys \<Rightarrow> ys) @ map f xs))"
  by (induction xs arbitrary: m) (auto simp: append_at_def)

lemma add_vuln_eq:
  "add_vuln j vuln m =
     (if cves_of [vuln] = [] then m
      else m(j \<mapsto> (case m j of None \<Rightarrow> [] | Some ys \<Rightarrow> ys) @ cves_of [vuln]))"
  by (simp add: add_vuln_def cves_of_def fold_append_at)

lemma cves_of_Cons: "cves_of (v # vs) = cves_of [v] @ cves_of vs"
  by (simp add: cves_of_def)

lemma fold_add_vuln:
  "fold (add_vuln j) vulns m =
     (if cves_of vulns = [] then m
      else m(j \<mapsto> (case m j of None \<Rightarrow> [] | Some ys \<Rightarrow> ys) @ cves_of vulns))"
proof (induction vulns arbitrary: m)
  case Nil
  show ?case by (simp add: cves_of_def)
next
  case (Cons v vs)
  have "fold (add_vuln j) (v # vs) m = fold (add_vuln j) vs (add_vuln j v m)"
    by simp
  also have "\<dots> = (if cves_of vs = [] then add_vuln j v m
      else (add_vuln j v m)(j \<mapsto> (case add_vuln j v m j of None \<Rightarrow> [] | Some ys \<Rightarrow> ys) @ cves_of vs))"
    by (rule Cons.IH)
  also have "\<dots> = (if cves_of (v # vs) = [] then m
      else m(j \<mapsto> (case m j of None \<Rightarrow> [] | Some ys \<Rightarrow> ys) @ cves_of (v # vs)))"
    by (simp add: add_vuln_eq cves_of_Cons [of v vs])
  finally show ?case .
qed

lemma fold_add_result:
  "fold add_result (enumerate n rs) m k =
     (if n \<le> k \<and> k < n + length rs \<and> cves_of (rs ! (k - n)) \<noteq> []
      then Some ((case m k of None \<Rightarrow> [] | Some ys \<Rightarrow> ys) @ cves_of (rs ! (k - n)))
      else m k)"
proof (induction rs arbitrary: n m)
  case Nil
  show ?case by auto
next
  case (Cons r rs)
  have "fold add_result (enumerate n (r # rs)) m k
          = fold add_result (enumerate (Suc n) rs) (fold (add_vuln n) r m) k"
    by (simp add: add_result_def)
  also have "\<dots> = (if n \<le> k \<and> k < n + length (r # rs) \<and> cves_of ((r # rs) ! (k - n)) \<noteq> []
      then Some ((case m k of None \<Rightarrow> [] | Some ys \<Rightarrow> ys) @ cves_of ((r # rs) ! (k - n)))
      else m k)"
    by (auto simp: Cons.IH fold_add_vuln nth_Cons' Suc_diff_le not_less_eq_eq)
  finally show ?case .
qed

lemma collect_results_eq:
  "collect_results rs k =
     (if k < length rs \<and> cves_of (rs ! k) \<noteq> [] then Some (cves_of (rs ! k)) else None)"
  by (simp add: collect_results_def fold_add_result)

lemma merge_chunk_any_order:
  "distinct ks \<Longrightarrow> set ks = dom cr \<Longrightarrow> fold (merge_step i cr) ks results = merge_chunk i cr results"
proof (induction ks arbitrary: results cr)
  case Nil
  then show ?case by (auto simp: merge_chunk_def fun_eq_iff split: option.splits)
next
  case (Cons j ks)
  from Cons.prems obtain v where v: "cr j = Some v" by auto
  let ?cr' = "cr(j := None)"
  have ks: "distinct ks" "set ks = dom ?cr'" using Cons.prems by auto
  have same: "fold (merge_step i cr) ks r = fold (merge_step i ?cr') ks r" for r
    using Cons.prems by (intro fold_cong) (auto simp: merge_step_def fun_eq_iff)
  have "fold (merge_step i cr) (j # ks) results = fold (merge_step i ?cr') ks (merge_step i cr j results)"
    using same by simp
  also have "\<dots> = merge_chunk i ?cr' (merge_step i cr j results)"
    using ks by (rule Cons.IH)
  also have "\<dots> = merge_chunk i cr results"
    using v by (auto simp: merge_chunk_def merge_step_def fun_eq_iff split: option.splits)
  finally show ?case .
qed

lemma add_cve_inv:
  "seen = set cves \<Longrightarrow> distinct cves \<Longrightarrow> add_cve s (seen, cves) = (seen', cves') \<Longrightarrow>
   seen' = set cves' \<and> distinct cves' \<and>
   set cves' = set cves \<union> (if HasPrefix s ''CVE-'' then {s} else {})"
  by (auto simp: add_cve_def split: if_splits)

lemma fold_add_cve_inv:
  "fst st = set (snd st) \<Longrightarrow> distinct (snd st) \<Longrightarrow>
   fst (fold add_cve as st) = set (snd (fold add_cve as st)) \<and>
   distinct (snd (fold add_cve as st)) \<and>
   set (snd (fold add_cve as st)) = set (snd st) \<union> {a \<in> set as. HasPrefix a ''CVE-''}"
proof (induction as arbitrary: st)
  case Nil
  then show ?case by simp
next
  case (Cons a as)
  obtain seen cves where st: "st = (seen, cves)" by (cases st)
  obtain seen' cves' where st': "add_cve a st = (seen', cves')" by (cases "add_cve a st")
  from add_cve_inv [of seen cves a seen' cves'] Cons.prems st st'
  have inv: "seen' = set cves'" "distinct cves'"
    "set cves' = set cves \<union> (if HasPrefix a ''CVE-'' then {a} else {})"
    by auto
  from Cons.IH [of "add_cve a st"] inv st st'
  show ?case by auto
qed

lemma extractCVEIDs_set:
  "set (extractCVEIDs i as) = {s \<in> insert i (set as). HasPrefix s ''CVE-''}"
  using fold_add_cve_inv [of "add_cve i ({}, [])" as]
  by (auto simp: extractCVEIDs_def add_cve_def split: if_splits)

lemma extractCVEIDs_distinct: "distinct (extractCVEIDs i as)"
  using fold_add_cve_inv [of "add_cve i ({}, [])" as]
  by (auto simp: extractCVEIDs_def add_cve_def split: if_splits)

lemma cves_of_empty_iff: "cves_of vulns = [] \<longleftrightarrow> no_cve_ids vulns"
proof -
  have "cves_of vulns = [] \<longleftrightarrow> (\<forall>v \<in> set vulns. set (extractCVEIDs (vuln_ID v) (vuln_Aliases v)) = {})"
    by (auto simp: cves_of_def)
  then show ?thesis
    unfolding extractCVEIDs_set no_cve_ids_def by auto
qed

lemma queryChunk_per_query:
  "queryChunk (per_query r) chunk = Inr (collect_results (map (r \<circ> toQuery) chunk))"
  by (simp add: queryChunk_def per_query_def)

lemma merge_chunk_no_empty:
  "\<forall>k. results k \<noteq> Some [] \<Longrightarrow> merge_chunk i cr results k \<noteq> Some []"
  by (auto simp: merge_chunk_def split: option.splits)

lemma QueryBatch_loop_no_empty:
  "QueryBatch_loop srv deps i results = Inr m \<Longrightarrow> \<forall>k. results k \<noteq> Some [] \<Longrightarrow> m k \<noteq> Some []"
proof (induction srv deps i results rule: QueryBatch_loop.induct)
  case (1 srv deps i results)
  show ?case
  proof (cases "i < length deps")
    case False
    with "1.prems" show ?thesis by (simp add: QueryBatch_loop.simps [of srv deps i results])
  next
    case True
    define e where "e = (if length deps < i + batchSize then length deps else i + batchSize)"
    define chunk where "chunk = take (e - i) (drop i deps)"
    from "1.prems"(1) True obtain cr where cr: "queryChunk srv chunk = Inr cr"
      and rec: "QueryBatch_loop srv deps (i + batchSize) (merge_chunk i cr results) = Inr m"
      by (subst (asm) QueryBatch_loop.simps) (auto simp: Let_def e_def chunk_def split: sum.splits)
    have "\<forall>k. merge_chunk i cr results k \<noteq> Some []"
      using "1.prems"(2) merge_chunk_no_empty by blast
    with "1.IH" [OF True e_def chunk_def cr rec] show ?thesis .
  qed
qed

lemma QueryBatch_loop_per_query:
  "QueryBatch_loop (per_query r) deps i results =
     Inr (\<lambda>k. if i \<le> k \<and> k < length deps \<and> cves_of (r (toQuery (deps ! k))) \<noteq> []
              then Some (cves_of (r (toQuery (deps ! k)))) else results k)"
proof (induction "per_query r" deps i results rule: QueryBatch_loop.induct)
  case (1 deps i results)
  show ?case
  proof (cases "i < length deps")
    case False
    then show ?thesis by (subst QueryBatch_loop.simps) (auto simp: fun_eq_iff)
  next
    case True
    define e where "e = (if length deps < i + batchSize then length deps else i + batchSize)"
    define chunk where "chunk = take (e - i) (drop i deps)"
    define cr where "cr = collect_results (map (r \<circ> toQuery) chunk)"
    have cr: "queryChunk (per_query r) chunk = Inr cr"
      by (simp add: queryChunk_per_query cr_def)
    have len: "length chunk = e - i" and e: "i < e" "e \<le> length deps" "e \<le> i + batchSize"
      using True by (auto simp: chunk_def e_def batchSize_def)
    have step: "QueryBatch_loop (per_query r) deps i results
                  = QueryBatch_loop (per_query r) deps (i + batchSize) (merge_chunk i cr results)"
      using True cr by (subst QueryBatch_loop.simps) (simp add: Let_def e_def chunk_def)
    have mc: "merge_chunk i cr results k =
        (if i \<le> k \<and> k < e \<and> cves_of (r (toQuery (deps ! k))) \<noteq> []
         then Some (cves_of (r (toQuery (deps ! k)))) else results k)" for k
      using len e by (auto simp: merge_chunk_def cr_def collect_results_eq chunk_def)
    have e': "e = i + batchSize \<or> e = length deps"
      by (auto simp: e_def)
    show ?thesis
      unfolding step "1.hyps" [OF True e_def chunk_def cr]
      using e e' by (auto simp: fun_eq_iff mc)
  qed
qed

section \<open>Claims about the OSV client\<close>

text \<open>
  Claim C5. Against an OSV service that answers each query on its own, \<open>QueryBatch\<close>, which
  sends chunks of 100, returns the same map as one \<open>queryChunk\<close> of the whole list; the
  map binds the global index \<open>k\<close>, below the number of dependencies, to the CVE records of
  the answer to the query of dependency \<open>k\<close>.
\<close>

theorem QueryBatch_chunking_transparent:
  "QueryBatch (per_query r) deps = queryChunk (per_query r) deps \<and>
   QueryBatch (per_query r) deps =
     Inr (\<lambda>k. if k < length deps \<and> cves_of (r (toQuery (deps ! k))) \<noteq> []
              then Some (cves_of (r (toQuery (deps ! k)))) else None)"
proof -
  have a: "QueryBatch (per_query r) deps =
     Inr (\<lambda>k. if k < length deps \<and> cves_of (r (toQuery (deps ! k))) \<noteq> []
              then Some (cves_of (r (toQuery (deps ! k)))) else None)"
    by (auto simp: QueryBatch_def QueryBatch_loop_per_query fun_eq_iff)
  have b: "queryChunk (per_query r) deps =
     Inr (\<lambda>k. if k < length deps \<and> cves_of (r (toQuery (deps ! k))) \<noteq> []
              then Some (cves_of (r (toQuery (deps ! k)))) else None)"
    by (auto simp: queryChunk_per_query collect_results_eq fun_eq_iff)
  show ?thesis using a b by simp
qed

lemma cves_demo: "cves_of (osv_demo (toQuery django)) = [\<lparr>ID = ''CVE-2021-3281'', Summary = ''Directory traversal'', Source = ''OSV''\<rparr>]"
  by (simp add: cves_of_def osv_demo_def toQuery_def django_def extractCVEIDs_def add_cve_def HasPrefix_def mkCVEInfo_def)

lemma cves_demo2: "cves_of (osv_demo (toQuery flask)) = []"
  by (simp add: cves_of_def osv_demo_def toQuery_def flask_def)

theorem QueryBatch_chunking_transparent_witness:
  "QueryBatch (per_query osv_demo) (replicate 100 flask @ [django]) =
     queryChunk (per_query osv_demo) (replicate 100 flask @ [django]) \<and>
   (case QueryBatch (per_query osv_demo) (replicate 100 flask @ [django]) of
      Inl err \<Rightarrow> False
    | Inr m \<Rightarrow>
        m 100 = Some [\<lparr>ID = ''CVE-2021-3281'', Summary = ''Directory traversal'', Source = ''OSV''\<rparr>] \<and>
        m 0 = None)"
proof -
  let ?deps = "replicate 100 flask @ [django]"
  have d: "?deps ! 100 = django" "?deps ! 0 = flask" "length ?deps = 101"
    by (simp_all add: nth_append)
  from QueryBatch_chunking_transparent [of osv_demo ?deps]
  have eq: "QueryBatch (per_query osv_demo) ?deps = queryChunk (per_query osv_demo) ?deps"
    and val: "QueryBatch (per_query osv_demo) ?deps =
     Inr (\<lambda>k. if k < length ?deps \<and> cves_of (osv_demo (toQuery (?deps ! k))) \<noteq> []
              then Some (cves_of (osv_demo (toQuery (?deps ! k)))) else None)"
    by blast+
  show ?thesis
    apply (rule conjI [OF eq])
    apply (subst val)
    apply (simp only: d sum.case cves_demo cves_demo2)
    apply simp
    done
qed

text \<open>
  Claim C10. A map returned by \<open>QueryBatch\<close> binds no index to the empty list, whatever the
  service answers; and when the answer for dependency \<open>k\<close> has no identifier with the prefix
  \<open>CVE-\<close>, the index \<open>k\<close> is absent from the map.
\<close>

theorem QueryBatch_never_binds_empty:
  "(QueryBatch srv deps = Inr m \<longrightarrow> m k \<noteq> Some []) \<and>
   (k < length deps \<and> no_cve_ids (r (toQuery (deps ! k))) \<longrightarrow>
      (\<exists>m'. QueryBatch (per_query r) deps = Inr m' \<and> m' k = None))"
proof -
  have "QueryBatch srv deps = Inr m \<Longrightarrow> m k \<noteq> Some []"
    using QueryBatch_loop_no_empty [of srv deps 0 Map.empty m k]
    by (auto simp: QueryBatch_def split: if_splits)
  moreover have "k < length deps \<and> no_cve_ids (r (toQuery (deps ! k))) \<Longrightarrow>
      (\<exists>m'. QueryBatch (per_query r) deps = Inr m' \<and> m' k = None)"
    by (auto simp: QueryBatch_def QueryBatch_loop_per_query cves_of_empty_iff)
  ultimately show ?thesis by blast
qed

theorem QueryBatch_never_binds_empty_witness:
  "QueryBatch osv_two [django, flask] = Inr (Map.empty(0 \<mapsto> cves_of (osv_demo (toQuery django)))) \<and>
   (Map.empty(0::nat \<mapsto> cves_of (osv_demo (toQuery django)))) 1 \<noteq> Some [] \<and>
   1 < length [django, flask] \<and> no_cve_ids (osv_demo (toQuery ([django, flask] ! 1))) \<and>
   (\<exists>m'. QueryBatch (per_query osv_demo) [django, flask] = Inr m' \<and> m' 1 = None)"
proof -
  have q: "QueryBatch osv_two [django, flask] = Inr (Map.empty(0 \<mapsto> cves_of (osv_demo (toQuery django))))"
    by (simp add: QueryBatch_def QueryBatch_loop.simps batchSize_def queryChunk_def osv_two_def collect_results_def
        add_result_def add_vuln_def extractCVEIDs_def add_cve_def HasPrefix_def append_at_def
        mkCVEInfo_def merge_chunk_def cves_demo fun_eq_iff)
  have n: "1 < length [django, flask] \<and> no_cve_ids (osv_demo (toQuery ([django, flask] ! 1)))"
    by (simp add: no_cve_ids_def osv_demo_def toQuery_def flask_def)
  note t = QueryBatch_never_binds_empty [of osv_two "[django, flask]"
      "Map.empty(0 \<mapsto> cves_of (osv_demo (toQuery django)))" 1 osv_demo]
  have a: "(Map.empty(0::nat \<mapsto> cves_of (osv_demo (toQuery django)))) 1 \<noteq> Some []"
    by (rule t [THEN conjunct1, THEN mp, OF q])
  have b: "\<exists>m'. QueryBatch (per_query osv_demo) [django, flask] = Inr m' \<and> m' 1 = None"
    by (rule t [THEN conjunct2, THEN mp, OF n])
  show ?thesis using q a n b by (intro conjI) simp_all
qed

section \<open>Cache, catalog, cross-reference, enrichment and filter\<close>

text \<open>
  Claim C6. When \<open>Set\<close> of key \<open>k\<close> and value \<open>v\<close> at instant \<open>t0\<close> succeeds, \<open>Get\<close> of \<open>k\<close>
  at an instant \<open>t1\<close> returns \<open>(v, true)\<close> if the time since \<open>t0\<close> is at most the TTL, and
  \<open>(nil, false)\<close> if it is more. In any file system, \<open>Get\<close> returns \<open>found = false\<close> for a
  file that is present when more than the TTL has passed since its modification time.
\<close>

theorem Cache_round_trip:
  "(Set h c fs t0 k v = Inr fs' \<longrightarrow>
      (time_Since t1 t0 \<le> TTL c \<longrightarrow> Get h c fs' t1 k = (v, True)) \<and>
      (TTL c < time_Since t1 t0 \<longrightarrow> Get h c fs' t1 k = ([], False))) \<and>
   (files fs2 (Path h c k) = Some f \<and> TTL c < time_Since t (modTime f) \<longrightarrow>
      Get h c fs2 t k = ([], False))"
  by (auto simp: Set_def Get_def os_WriteFile_def os_Stat_def os_ReadFile_def Let_def
           split: if_splits)

lemma fold_catalog_put:
  "fold (catalog_put tp) vs m c =
     (if filter (\<lambda>v. v_CVEID v = c) vs = [] then m c
      else Some (toKEVInfo tp (last (filter (\<lambda>v. v_CVEID v = c) vs))))"
  by (induction vs arbitrary: m) (auto simp: catalog_put_def)

text \<open>
  Claim C8. When the document decodes, \<open>parseKEVData\<close> returns a catalog, whatever CVE IDs
  repeat; it binds every CVE ID of the array to the entry built from the last array element
  with that ID, and no other ID. A \<open>dateAdded\<close> or \<open>dueDate\<close> that does not parse gives the
  zero date.
\<close>

theorem parseKEVData_last_entry_wins:
  "(json data = Some resp \<longrightarrow>
     (\<exists>catalog. parseKEVData json tp data = Inr catalog \<and>
        (\<forall>c. catalog c =
           (if filter (\<lambda>v. v_CVEID v = c) (Vulnerabilities resp) = [] then None
            else Some (toKEVInfo tp (last (filter (\<lambda>v. v_CVEID v = c) (Vulnerabilities resp)))))))) \<and>
   (tp (v_DateAdded v) = None \<longrightarrow> DateAdded (toKEVInfo tp v) = 0) \<and>
   (tp (v_DueDate v) = None \<longrightarrow> DueDate (toKEVInfo tp v) = 0)"
  by (auto simp: parseKEVData_def fold_catalog_put toKEVInfo_def)

lemma f64_le_trans: "f64_le a b \<Longrightarrow> f64_le b c \<Longrightarrow> f64_le a c"
  by (cases a; cases b; cases c) simp_all

lemma f64_lt_le_trans: "f64_lt a b \<Longrightarrow> f64_le b c \<Longrightarrow> f64_lt a c"
  by (cases a; cases b; cases c) simp_all

lemma f64_ge_iff: "f64_lt z t \<Longrightarrow> f64_ge x t \<longleftrightarrow> \<not> (f64_lt x t \<or> x = NaN)"
  unfolding f64_ge_def by (cases z; cases t; cases x) auto

lemma fold_keep_kev:
  "fold (keep_kev t) ks acc = acc @ filter (\<lambda>k. f64_ge (EPSSScore k) t) ks"
  by (induction ks arbitrary: acc) (auto simp: keep_kev_def)

lemma fold_keep_finding:
  "fold (keep_finding t) fs acc =
     acc @ concat (map (\<lambda>f. if kept t f = [] then [] else [f\<lparr>KEVs := kept t f\<rparr>]) fs)"
  by (induction fs arbitrary: acc) (auto simp: keep_finding_def fold_keep_kev kept_def Let_def)

lemma total_kevs_filtered:
  "total_kevs (fold (keep_finding t) fs []) = sum_list (map (\<lambda>f. length (kept t f)) fs)"
  unfolding fold_keep_finding total_kevs_def
  by (induction fs) auto

lemma kevs_filtered:
  "concat (map KEVs (fold (keep_finding t) fs [])) =
     filter (\<lambda>k. f64_ge (EPSSScore k) t) (concat (map KEVs fs))"
  unfolding fold_keep_finding
  by (induction fs) (auto simp: kept_def)

lemma kept_mono: "f64_le t1 t2 \<Longrightarrow> length (kept t2 f) \<le> length (kept t1 f)"
proof -
  assume le: "f64_le t1 t2"
  have "kept t2 f = filter (\<lambda>k. f64_ge (EPSSScore k) t2) (kept t1 f)"
    using f64_le_trans [OF le] by (auto simp: kept_def f64_ge_def intro: filter_cong)
  then show ?thesis by (metis length_filter_le)
qed

lemma kept_le: "length (kept t f) \<le> length (KEVs f)"
  by (simp add: kept_def)

lemma filter_stage_zero: "filter_stage (Finite 0) fs = fs"
  by (simp add: filter_stage_def f64_gt_def)

text \<open>
  Claim C4, as amended. For thresholds \<open>t1 <= t2\<close> the filter stage keeps at most as many
  KEV entries under \<open>t2\<close> as under \<open>t1\<close>; with threshold \<open>0\<close> it returns the findings
  unchanged; under a positive threshold the entries kept are, in order, exactly those whose
  score is neither strictly below the threshold nor NaN: an entry is removed iff its score
  is strictly below the threshold or is NaN.
\<close>

theorem filter_stage_monotone:
  "(f64_le t1 t2 \<longrightarrow> total_kevs (filter_stage t2 fs) \<le> total_kevs (filter_stage t1 fs)) \<and>
   filter_stage (Finite 0) fs = fs \<and>
   (f64_gt t (Finite 0) \<longrightarrow>
      concat (map KEVs (filter_stage t fs)) =
        filter (\<lambda>k. \<not> (f64_lt (EPSSScore k) t \<or> EPSSScore k = NaN)) (concat (map KEVs fs)))"
proof (intro conjI impI)
  assume le: "f64_le t1 t2"
  show "total_kevs (filter_stage t2 fs) \<le> total_kevs (filter_stage t1 fs)"
  proof (cases "f64_gt t2 (Finite 0)")
    case False
    with le have "\<not> f64_gt t1 (Finite 0)"
      unfolding f64_gt_def using f64_lt_le_trans by blast
    with False show ?thesis by (simp add: filter_stage_def)
  next
    case True
    have a: "total_kevs (filter_stage t2 fs) = sum_list (map (\<lambda>f. length (kept t2 f)) fs)"
      using True by (simp add: filter_stage_def total_kevs_filtered)
    show ?thesis
    proof (cases "f64_gt t1 (Finite 0)")
      case True
      then have "total_kevs (filter_stage t1 fs) = sum_list (map (\<lambda>f. length (kept t1 f)) fs)"
        by (simp add: filter_stage_def total_kevs_filtered)
      with a show ?thesis using le by (auto intro!: sum_list_mono kept_mono)
    next
      case False
      then have "total_kevs (filter_stage t1 fs) = sum_list (map (\<lambda>f. length (KEVs f)) fs)"
        by (simp add: filter_stage_def total_kevs_def)
      with a show ?thesis by (auto intro!: sum_list_mono kept_le)
    qed
  qed
next
  show "filter_stage (Finite 0) fs = fs" by (rule filter_stage_zero)
next
  assume pos: "f64_gt t (Finite 0)"
  then have "f64_ge x t \<longleftrightarrow> \<not> (f64_lt x t \<or> x = NaN)" for x
    unfolding f64_gt_def by (rule f64_ge_iff)
  with pos show "concat (map KEVs (filter_stage t fs)) =
        filter (\<lambda>k. \<not> (f64_lt (EPSSScore k) t \<or> EPSSScore k = NaN)) (concat (map KEVs fs))"
    by (simp add: filter_stage_def kevs_filtered)
qed

lemma fold_match_cve:
  "fold (match_cve cat) cves (kevs, al) =
     (kevs @ concat (map (\<lambda>cve. case cat (ID cve) of None \<Rightarrow> [] | Some kev \<Rightarrow> [kev]) cves),
      al @ filter (\<lambda>c. cat c \<noteq> None) (map ID cves))"
  by (induction cves arbitrary: kevs al) (auto simp: match_cve_def split: option.splits)

lemma crossref_step_eq:
  "crossref_step deps cat m k (fs, al) =
     (if m k \<noteq> None \<and> \<not> k < length deps then Inl ErrIndex
      else Inr (fs @ filter HasKEV [finding_of deps cat m k], al @ matched_of cat m k))"
  by (auto simp: crossref_step_def fold_match_cve finding_of_def matched_of_def HasKEV_def Let_def
           split: option.splits)

lemma crossref_eq:
  "crossref deps cat m ks (fs, al) =
     (if \<forall>k \<in> set ks. m k \<noteq> None \<longrightarrow> k < length deps
      then Inr (fs @ filter HasKEV (map (finding_of deps cat m) ks),
                al @ concat (map (matched_of cat m) ks))
      else Inl ErrIndex)"
proof (induction ks arbitrary: fs al)
  case Nil
  show ?case by simp
next
  case (Cons k ks)
  show ?case
  proof (cases "m k \<noteq> None \<and> \<not> k < length deps")
    case True
    then show ?thesis by (auto simp: crossref_step_eq)
  next
    case False
    then have "crossref deps cat m (k # ks) (fs, al) =
        crossref deps cat m ks (fs @ filter HasKEV [finding_of deps cat m k], al @ matched_of cat m k)"
      by (cases "m k") (auto simp: crossref_step_eq)
    also note Cons.IH
    finally show ?thesis using False by auto
  qed
qed

lemma finding_of_match:
  "HasKEV (finding_of deps cat m k) \<Longrightarrow>
     m k = Some (CVEs (finding_of deps cat m k)) \<and>
     (\<exists>cve \<in> set (CVEs (finding_of deps cat m k)). cat (ID cve) \<noteq> None)"
  by (cases "m k") (auto simp: HasKEV_def finding_of_def Let_def split: option.splits)

lemma finding_of_kevs:
  "kev \<in> set (KEVs (finding_of deps cat m k)) \<Longrightarrow> \<exists>c. cat c = Some kev"
  by (auto simp: finding_of_def Let_def split: option.splits)

lemma enrich_stage_fst:
  "f \<in> set (fst (enrich_stage pf srv (fs, al))) \<Longrightarrow>
     \<exists>g \<in> set fs. Dependency f = Dependency g \<and> CVEs f = CVEs g \<and> length (KEVs f) = length (KEVs g)"
  by (auto simp: enrich_stage_def enrich_def Let_def split: if_splits)

lemma filter_stage_mem:
  "f \<in> set (filter_stage t fs) \<Longrightarrow>
     \<exists>g \<in> set fs. Dependency f = Dependency g \<and> CVEs f = CVEs g \<and> set (KEVs f) \<subseteq> set (KEVs g) \<and>
        (KEVs g \<noteq> [] \<longrightarrow> KEVs f \<noteq> [])"
  by (auto simp: filter_stage_def fold_keep_finding kept_def split: if_splits)

lemma Scan_Inr:
  "result (Scan s w fs) = Inr findings \<Longrightarrow>
     (discover w = Inr [] \<and> findings = []) \<or>
     (\<exists>deps cat fs' m st. discover w = Inr deps \<and> deps \<noteq> [] \<and>
        FetchKEVCatalog (sha256hex w) (json_Unmarshal w) (time_Parse w) (cache s) (kev_http w) fs (now w)
          = (Inr cat, fs') \<and>
        QueryBatch (osv_http w) deps = Inr m \<and>
        crossref deps cat m (range_order w m) ([], []) = Inr st \<and>
        findings = filter_stage (EPSSThreshold (config s)) (fst (enrich_stage (ParseFloat w) (epss_http w) st)))"
  by (auto simp: Scan_def Let_def split: sum.splits if_splits prod.splits)

text \<open>
  Claim C1. Every finding that \<open>Scan\<close> returns has a non-empty \<open>KEVs\<close> list, and it is the
  finding of a dependency index whose CVE list, as OSV returned it, has a CVE that is in the
  KEV catalog: a dependency without a KEV match yields no finding.
\<close>

theorem Scan_findings_have_KEV:
  "result (Scan s w fs) = Inr findings \<Longrightarrow> f \<in> set findings \<Longrightarrow>
     KEVs f \<noteq> [] \<and>
     (\<exists>deps cat fs' m k.
        discover w = Inr deps \<and>
        FetchKEVCatalog (sha256hex w) (json_Unmarshal w) (time_Parse w) (cache s) (kev_http w) fs (now w)
          = (Inr cat, fs') \<and>
        QueryBatch (osv_http w) deps = Inr m \<and>
        k < length deps \<and> Dependency f = deps ! k \<and> m k = Some (CVEs f) \<and>
        (\<exists>cve \<in> set (CVEs f). cat (ID cve) \<noteq> None))"
proof -
  assume r: "result (Scan s w fs) = Inr findings" and f: "f \<in> set findings"
  from Scan_Inr [OF r] f obtain deps cat fs' m st where
    d: "discover w = Inr deps" and
    c: "FetchKEVCatalog (sha256hex w) (json_Unmarshal w) (time_Parse w) (cache s) (kev_http w) fs (now w)
          = (Inr cat, fs')" and
    q: "QueryBatch (osv_http w) deps = Inr m" and
    x: "crossref deps cat m (range_order w m) ([], []) = Inr st" and
    fin: "findings = filter_stage (EPSSThreshold (config s)) (fst (enrich_stage (ParseFloat w) (epss_http w) st))"
    by auto
  let ?ks = "range_order w m"
  from x have ok: "\<forall>k \<in> set ?ks. m k \<noteq> None \<longrightarrow> k < length deps"
    and st: "st = (filter HasKEV (map (finding_of deps cat m) ?ks), concat (map (matched_of cat m) ?ks))"
    by (auto simp: crossref_eq split: if_splits)
  from f fin obtain g where g: "g \<in> set (fst (enrich_stage (ParseFloat w) (epss_http w) st))"
    and fg: "Dependency f = Dependency g" "CVEs f = CVEs g" "KEVs g \<noteq> [] \<longrightarrow> KEVs f \<noteq> []"
    using filter_stage_mem by blast
  from g st obtain h where h: "h \<in> set (filter HasKEV (map (finding_of deps cat m) ?ks))"
    and gh: "Dependency g = Dependency h" "CVEs g = CVEs h" "length (KEVs g) = length (KEVs h)"
    using enrich_stage_fst by blast
  from h obtain k where k: "k \<in> set ?ks" "h = finding_of deps cat m k" "HasKEV h"
    by auto
  from finding_of_match [of deps cat m k] k
  have mk: "m k = Some (CVEs h)" and ex: "\<exists>cve \<in> set (CVEs h). cat (ID cve) \<noteq> None"
    by auto
  from ok k mk have klt: "k < length deps" by auto
  have dep: "Dependency h = deps ! k" using k by (simp add: finding_of_def Let_def)
  have ne: "KEVs f \<noteq> []" using fg gh k by (auto simp: HasKEV_def)
  show ?thesis
    using ne d c q klt dep mk ex fg gh by auto
qed

lemma chunk_starts_done: "\<not> i < n \<Longrightarrow> chunk_starts i n = []"
  by (simp add: chunk_starts_def chunkSize_def)

lemma div_step:
  assumes "i < (n::nat)"
  shows "(n - i + 100 - 1) div 100 = Suc ((n - (i + 100) + 100 - 1) div 100)"
proof (cases "n - i < 100")
  case True
  have a: "(n - i + 100 - 1) div 100 = 1"
    using True assms by (intro div_nat_eqI) auto
  have b: "(n - (i + 100) + 100 - 1) div 100 = 0"
    using True by simp
  show ?thesis using a b by simp
next
  case False
  then have "n - i + 100 - 1 = (n - (i + 100) + 100 - 1) + 100"
    by simp
  then show ?thesis by (simp only: div_add_self2)
qed

lemma chunk_starts_step: "i < n \<Longrightarrow> chunk_starts i n = i # chunk_starts (i + chunkSize) n"
proof -
  assume lt: "i < n"
  define K where "K = (n - (i + chunkSize) + chunkSize - 1) div chunkSize"
  have K: "(n - i + chunkSize - 1) div chunkSize = Suc K"
    using lt unfolding K_def chunkSize_def by (rule div_step)
  have "[0..<Suc K] = 0 # map Suc [0..<K]"
    by (simp add: upt_conv_Cons map_Suc_upt del: upt_Suc)
  then show ?thesis
    unfolding chunk_starts_def K K_def [symmetric] by (simp add: comp_def)
qed

lemma FetchScores_loop_step:
  "i < length ids \<Longrightarrow>
     FetchScores_loop pf srv ids i scores =
     FetchScores_loop pf srv ids (i + chunkSize) (fold (store_row pf) (rows_at srv ids i) scores)"
  by (subst FetchScores_loop.simps) (auto simp: rows_at_def split: http_result.splits option.splits)

lemma FetchScores_loop_eq:
  "FetchScores_loop pf srv ids i scores =
     (fold (store_row pf) (concat (map (rows_at srv ids) (chunk_starts i (length ids)))) scores, None)"
proof (induction "length ids - i" arbitrary: i scores rule: less_induct)
  case less
  show ?case
  proof (cases "i < length ids")
    case False
    then show ?thesis
      by (subst FetchScores_loop.simps) (simp add: chunk_starts_done)
  next
    case True
    then have "length ids - (i + chunkSize) < length ids - i"
      by (simp add: chunkSize_def)
    from less [OF this] True show ?thesis
      by (simp add: FetchScores_loop_step chunk_starts_step)
  qed
qed

lemma FetchScores_eq:
  "FetchScores pf srv ids =
     (fold (store_row pf) (concat (map (rows_at srv ids) (chunk_starts 0 (length ids)))) Map.empty, None)"
  by (simp add: FetchScores_def FetchScores_loop_eq chunk_starts_done)

lemma rows_at_fails: "chunk_fails srv ids i \<Longrightarrow> rows_at srv ids i = []"
  by (auto simp: chunk_fails_def rows_at_def split: http_result.splits option.splits)

lemma unreachable_fails: "epss_unreachable srv \<Longrightarrow> chunk_fails srv ids i"
  unfolding epss_unreachable_def chunk_fails_def by blast

lemma FetchScores_all_fail:
  "\<forall>i \<in> set (chunk_starts 0 (length ids)). chunk_fails srv ids i \<Longrightarrow>
     fst (FetchScores pf srv ids) = Map.empty"
proof -
  assume "\<forall>i \<in> set (chunk_starts 0 (length ids)). chunk_fails srv ids i"
  then have e: "concat (map (rows_at srv ids) (chunk_starts 0 (length ids))) = []"
    by (auto simp: rows_at_fails)
  show ?thesis unfolding FetchScores_eq e by simp
qed

lemma enrich_empty: "enrich Map.empty fs = fs"
  by (simp add: enrich_def enrich_kev_def map_idI)

lemma parseKEVData_entries:
  "parseKEVData json tp d = Inr cat \<Longrightarrow> cat x = Some kev \<Longrightarrow>
     EPSSScore kev = Finite 0 \<and> EPSSPercentile kev = Finite 0 \<and> CVEID kev = x"
proof -
  assume p: "parseKEVData json tp d = Inr cat" and x: "cat x = Some kev"
  from p obtain resp :: KEVResponse where cat: "cat = fold (catalog_put tp) (Vulnerabilities resp) Map.empty"
    by (auto simp: parseKEVData_def split: option.splits)
  let ?vs = "filter (\<lambda>v. v_CVEID v = x) (Vulnerabilities resp)"
  from x have ne: "?vs \<noteq> []" and kev: "kev = toKEVInfo tp (last ?vs)"
    unfolding cat fold_catalog_put by (auto split: if_splits)
  from ne have "last ?vs \<in> set ?vs" by (rule last_in_set)
  then have "v_CVEID (last ?vs) = x" by simp
  then show ?thesis unfolding kev by (simp add: toKEVInfo_def)
qed

lemma FetchKEVCatalog_entries:
  "FetchKEVCatalog h json tp c http fs t = (Inr cat, fs') \<Longrightarrow> cat x = Some kev \<Longrightarrow>
     EPSSScore kev = Finite 0 \<and> EPSSPercentile kev = Finite 0 \<and> CVEID kev = x"
  by (auto simp: FetchKEVCatalog_def Let_def
           split: prod.splits if_splits http_result.splits option.splits
           dest: parseKEVData_entries)

lemma crossref_kevs:
  "crossref deps cat m ks ([], []) = Inr st \<Longrightarrow> f \<in> set (fst st) \<Longrightarrow> kev \<in> set (KEVs f) \<Longrightarrow>
     \<exists>c. cat c = Some kev"
  by (auto simp: crossref_eq split: if_splits dest: finding_of_kevs)

lemma QueryBatch_per_query:
  "QueryBatch (per_query r) deps =
     Inr (\<lambda>k. if k < length deps \<and> cves_of (r (toQuery (deps ! k))) \<noteq> []
              then Some (cves_of (r (toQuery (deps ! k)))) else None)"
  by (auto simp: QueryBatch_def QueryBatch_loop_per_query fun_eq_iff)

lemma cves_of_osv_all: "cves_of (osv_all q) = [cve_3281]"
  by (simp add: cves_of_def osv_all_def extractCVEIDs_def add_cve_def HasPrefix_def mkCVEInfo_def
      cve_3281_def)

lemma demo_query: "QueryBatch (per_query osv_all) [django, flask] = Inr demo_cves"
  unfolding QueryBatch_per_query cves_of_osv_all
  by (auto simp: demo_cves_def fun_eq_iff)

lemma demo_parse: "parseKEVData (\<lambda>data. Some kev_doc) no_date d = Inr demo_catalog"
  by (simp add: parseKEVData_def kev_doc_def catalog_put_def demo_catalog_def kev_3281_def
      vuln_3281_old_def vuln_3281_def)

lemma demo_fetch:
  "FetchKEVCatalog h (\<lambda>data. Some kev_doc) no_date None (Response 200 (Some d)) fs t
     = (Inr demo_catalog, fs)"
  by (simp add: FetchKEVCatalog_def demo_parse)

lemma valid_demo: "valid_range [0, Suc 0] demo_cves" "valid_range [Suc 0, 0] demo_cves"
  by (auto simp: valid_range_def demo_cves_def)

lemma finding_of_demo:
  "finding_of [django, flask] demo_catalog demo_cves 0 = finding_django"
  "finding_of [django, flask] demo_catalog demo_cves (Suc 0) = finding_flask"
  by (simp_all add: finding_of_def demo_cves_def demo_catalog_def cve_3281_def finding_django_def
      finding_flask_def)

lemma matched_of_demo:
  "matched_of demo_catalog demo_cves 0 = [''CVE-2021-3281'']"
  "matched_of demo_catalog demo_cves (Suc 0) = [''CVE-2021-3281'']"
  by (simp_all add: matched_of_def demo_cves_def demo_catalog_def cve_3281_def)

lemma HasKEV_demo: "HasKEV finding_django" "HasKEV finding_flask"
  by (simp_all add: HasKEV_def finding_django_def finding_flask_def)

lemma demo_crossref:
  "crossref [django, flask] demo_catalog demo_cves [0, Suc 0] ([], [])
     = Inr ([finding_django, finding_flask], [''CVE-2021-3281'', ''CVE-2021-3281''])"
  "crossref [django, flask] demo_catalog demo_cves [Suc 0, 0] ([], [])
     = Inr ([finding_flask, finding_django], [''CVE-2021-3281'', ''CVE-2021-3281''])"
  by (simp_all add: crossref_eq finding_of_demo matched_of_demo HasKEV_demo)

lemma demo_epss_up:
  "FetchScores demo_ParseFloat epss_up [''CVE-2021-3281'', ''CVE-2021-3281'']
     = (Map.empty(''CVE-2021-3281'' \<mapsto> \<lparr>Score = Finite (1 / 200), Percentile = Finite (1 / 5)\<rparr>), None)"
  by (simp add: FetchScores_def FetchScores_loop.simps chunkSize_def epss_up_def store_row_def
      epss_row_def demo_ParseFloat_def)

lemma demo_epss_down:
  "FetchScores pf epss_down [''CVE-2021-3281'', ''CVE-2021-3281''] = (Map.empty, None)"
  by (simp add: FetchScores_def FetchScores_loop.simps chunkSize_def epss_down_def)

lemma finding_ne: "[finding_django, finding_flask] \<noteq> [finding_flask, finding_django]"
  by (simp add: finding_django_def finding_flask_def django_def flask_def)

lemma demo_enrich_up:
  "enrich (Map.empty(''CVE-2021-3281'' \<mapsto> \<lparr>Score = Finite (1 / 200), Percentile = Finite (1 / 5)\<rparr>)) [finding_django, finding_flask]
    = [scored (Finite (1 / 200)) (Finite (1 / 5)) finding_django, scored (Finite (1 / 200)) (Finite (1 / 5)) finding_flask]"
  by (simp add: enrich_def enrich_kev_def scored_def finding_django_def finding_flask_def
      kev_3281_def toKEVInfo_def vuln_3281_def)

lemma Scan_success:
  "discover w = Inr deps \<Longrightarrow> deps \<noteq> [] \<Longrightarrow>
   FetchKEVCatalog (sha256hex w) (json_Unmarshal w) (time_Parse w) (cache s) (kev_http w) fs (now w)
     = (Inr cat, fs') \<Longrightarrow>
   QueryBatch (osv_http w) deps = Inr m \<Longrightarrow>
   crossref deps cat m (range_order w m) ([], []) = Inr st \<Longrightarrow>
   Scan s w fs =
     \<lparr>result = Inr (filter_stage (EPSSThreshold (config s))
                        (fst (enrich_stage (ParseFloat w) (epss_http w) st))),
      epss_calls = snd (enrich_stage (ParseFloat w) (epss_http w) st),
      fs_after = fs'\<rparr>"
  by (simp add: Scan_def split: prod.splits)

lemma demo_scan:
  assumes ks: "crossref [django, flask] demo_catalog demo_cves ks ([], []) = Inr st"
  shows "Scan (demo_scanner\<lparr>config := (config demo_scanner)\<lparr>EPSSThreshold := thr\<rparr>\<rparr>)
              (demo_env\<lparr>epss_http := srv, range_order := (\<lambda>m. ks)\<rparr>) demo_fs =
     \<lparr>result = Inr (filter_stage thr (fst (enrich_stage demo_ParseFloat srv st))),
      epss_calls = snd (enrich_stage demo_ParseFloat srv st),
      fs_after = demo_fs\<rparr>"
proof -
  let ?w = "demo_env\<lparr>epss_http := srv, range_order := (\<lambda>m. ks)\<rparr>"
  let ?s = "demo_scanner\<lparr>config := (config demo_scanner)\<lparr>EPSSThreshold := thr\<rparr>\<rparr>"
  have d: "discover ?w = Inr [django, flask]" by (simp add: demo_env_def)
  have f: "FetchKEVCatalog (sha256hex ?w) (json_Unmarshal ?w) (time_Parse ?w) (cache ?s) (kev_http ?w)
             demo_fs (now ?w) = (Inr demo_catalog, demo_fs)"
    by (simp add: demo_env_def demo_scanner_def demo_fetch)
  have q: "QueryBatch (osv_http ?w) [django, flask] = Inr demo_cves"
    by (simp add: demo_env_def demo_query)
  have x: "crossref [django, flask] demo_catalog demo_cves (range_order ?w demo_cves) ([], []) = Inr st"
    using ks by simp
  from Scan_success [OF d _ f q x] show ?thesis
    by (simp add: demo_env_def)
qed

lemma demo_env_same: "demo_env\<lparr>epss_http := epss_up, range_order := (\<lambda>m. [0, Suc 0])\<rparr> = demo_env"
  by (simp add: demo_env_def)

lemma demo_scanner_same: "demo_scanner\<lparr>config := (config demo_scanner)\<lparr>EPSSThreshold := Finite 0\<rparr>\<rparr> = demo_scanner"
  by (simp add: demo_scanner_def)

lemma demo_scan_up:
  "Scan demo_scanner demo_env demo_fs =
     \<lparr>result = Inr [scored (Finite (1 / 200)) (Finite (1 / 5)) finding_django, scored (Finite (1 / 200)) (Finite (1 / 5)) finding_flask],
      epss_calls = [[''CVE-2021-3281'', ''CVE-2021-3281'']],
      fs_after = demo_fs\<rparr>"
  using demo_scan [OF demo_crossref(1), of "Finite 0" epss_up]
  by (simp add: demo_env_same demo_scanner_same enrich_stage_def demo_epss_up demo_enrich_up
      filter_stage_zero)

lemma Scan_isl_epss:
  "isl (result (Scan s (w\<lparr>epss_http := srv\<rparr>) fs)) = isl (result (Scan s w fs))"
  by (simp add: Scan_def split: sum.splits prod.splits)

lemma enrich_stage_unreachable:
  "epss_unreachable srv \<Longrightarrow> fst (enrich_stage pf srv (fs, al)) = fs"
  by (simp add: enrich_stage_def FetchScores_all_fail unreachable_fails enrich_empty)

lemma fold_store_row:
  "fold (store_row pf) rows m c =
     (if filter (\<lambda>d. d_CVE d = c) rows = [] then m c
      else Some \<lparr>Score = pf (d_EPSS (last (filter (\<lambda>d. d_CVE d = c) rows))),
                 Percentile = pf (d_Percentile (last (filter (\<lambda>d. d_CVE d = c) rows)))\<rparr>)"
  by (induction rows arbitrary: m) (auto simp: store_row_def)

lemma set_chunk_starts: "set (chunk_starts 0 n) = {i. i < n \<and> i mod chunkSize = 0}"
proof -
  have iff: "c < (n + 99) div 100 \<longleftrightarrow> c * 100 < n" for c
  proof -
    have "Suc c \<le> (n + 99) div 100 \<longleftrightarrow> Suc c * 100 \<le> n + 99"
      by (simp add: less_eq_div_iff_mult_less_eq)
    then show ?thesis by (simp add: Suc_le_eq)
  qed
  have K: "(n - 0 + chunkSize - 1) div chunkSize = (n + 99) div 100"
    by (simp add: chunkSize_def)
  have cs: "chunk_starts 0 n = map (\<lambda>c. c * 100) [0..<(n + 99) div 100]"
    unfolding chunk_starts_def K by (simp add: chunkSize_def)
  have "(i \<in> set (chunk_starts 0 n)) = (i < n \<and> i mod 100 = 0)" for i
  proof
    assume "i \<in> set (chunk_starts 0 n)"
    then obtain c where c: "c < (n + 99) div 100" and i: "i = c * 100"
      unfolding cs by auto
    from c have "c * 100 < n" by (simp only: iff)
    then show "i < n \<and> i mod 100 = 0" unfolding i by simp
  next
    assume r: "i < n \<and> i mod 100 = 0"
    define c where "c = i div 100"
    from r have ci: "c * 100 = i" unfolding c_def by auto
    with r have "c * 100 < n" by simp
    then have "c < (n + 99) div 100" by (simp only: iff)
    then have "c * 100 \<in> set (chunk_starts 0 n)" unfolding cs by simp
    then show "i \<in> set (chunk_starts 0 n)" by (simp only: ci)
  qed
  then show ?thesis unfolding chunkSize_def set_eq_iff mem_Collect_eq by (rule allI)
qed

lemma rows_at_mem:
  "d \<in> set (rows_at srv ids i) \<Longrightarrow> srv i (chunk_url ids i) = Response 200 (Some (rows_at srv ids i))"
  by (auto simp: rows_at_def split: http_result.splits option.splits if_splits)

lemma rows_at_ok: "srv i (chunk_url ids i) = Response 200 (Some rs) \<Longrightarrow> rows_at srv ids i = rs"
  by (simp add: rows_at_def)

text \<open>
  Claim C7. \<open>FetchScores\<close> never returns an error. Its map binds a CVE ID exactly when a row
  of a chunk that succeeded carries it, to the score and percentile parsed from the last
  such row, in request order; every row of every chunk that succeeded is bound, every
  binding comes from a row of a chunk that succeeded, and failing chunks contribute
  nothing: when every chunk fails the map is empty. Whether \<open>Scan\<close> succeeds does not depend
  on the EPSS service, and when every EPSS request fails, every KEV entry of every returned
  finding has score and percentile zero.
\<close>

theorem FetchScores_skips_failed_chunks:
  "snd (FetchScores pf srv ids) = None \<and>
   (\<forall>c. fst (FetchScores pf srv ids) c =
      (let rows = filter (\<lambda>d. d_CVE d = c)
                    (concat (map (rows_at srv ids) (chunk_starts 0 (length ids))))
       in if rows = [] then None
          else Some \<lparr>Score = pf (d_EPSS (last rows)), Percentile = pf (d_Percentile (last rows))\<rparr>)) \<and>
   (i < length ids \<and> i mod chunkSize = 0 \<and> srv i (chunk_url ids i) = Response 200 (Some rs) \<and>
    d \<in> set rs \<longrightarrow> fst (FetchScores pf srv ids) (d_CVE d) \<noteq> None) \<and>
   (fst (FetchScores pf srv ids) cv = Some sc \<longrightarrow>
      (\<exists>j rs' d'. j < length ids \<and> j mod chunkSize = 0 \<and>
         srv j (chunk_url ids j) = Response 200 (Some rs') \<and> d' \<in> set rs' \<and> d_CVE d' = cv \<and>
         sc = \<lparr>Score = pf (d_EPSS d'), Percentile = pf (d_Percentile d')\<rparr>)) \<and>
   ((\<forall>i \<in> set (chunk_starts 0 (length ids)). chunk_fails srv ids i) \<longrightarrow>
      fst (FetchScores pf srv ids) = Map.empty) \<and>
   isl (result (Scan s (w\<lparr>epss_http := srv\<rparr>) fs)) = isl (result (Scan s w fs)) \<and>
   (epss_unreachable (epss_http w) \<and> result (Scan s w fs) = Inr findings \<and>
    f \<in> set findings \<and> kev \<in> set (KEVs f) \<longrightarrow>
      EPSSScore kev = Finite 0 \<and> EPSSPercentile kev = Finite 0)"
proof -
  let ?R = "concat (map (rows_at srv ids) (chunk_starts 0 (length ids)))"
  have p1: "snd (FetchScores pf srv ids) = None" by (simp add: FetchScores_eq)
  have cf: "fst (FetchScores pf srv ids) c =
      (let rows = filter (\<lambda>d. d_CVE d = c) ?R
       in if rows = [] then None
          else Some \<lparr>Score = pf (d_EPSS (last rows)), Percentile = pf (d_Percentile (last rows))\<rparr>)" for c
    by (simp add: FetchScores_eq fold_store_row Let_def)
  then have p2: "\<forall>c. fst (FetchScores pf srv ids) c =
      (let rows = filter (\<lambda>d. d_CVE d = c) ?R
       in if rows = [] then None
          else Some \<lparr>Score = pf (d_EPSS (last rows)), Percentile = pf (d_Percentile (last rows))\<rparr>)"
    by blast
  have p2a: "i < length ids \<and> i mod chunkSize = 0 \<and> srv i (chunk_url ids i) = Response 200 (Some rs) \<and>
    d \<in> set rs \<longrightarrow> fst (FetchScores pf srv ids) (d_CVE d) \<noteq> None"
  proof (rule impI)
    assume a: "i < length ids \<and> i mod chunkSize = 0 \<and>
      srv i (chunk_url ids i) = Response 200 (Some rs) \<and> d \<in> set rs"
    then have "i \<in> set (chunk_starts 0 (length ids))" by (simp add: set_chunk_starts)
    moreover from a have "d \<in> set (rows_at srv ids i)" by (simp add: rows_at_ok)
    ultimately have "d \<in> set ?R" by auto
    then have "filter (\<lambda>x. d_CVE x = d_CVE d) ?R \<noteq> []"
      by (auto simp: filter_empty_conv)
    then show "fst (FetchScores pf srv ids) (d_CVE d) \<noteq> None"
      unfolding cf by (simp add: Let_def)
  qed
  have p2b: "fst (FetchScores pf srv ids) cv = Some sc \<longrightarrow>
      (\<exists>j rs' d'. j < length ids \<and> j mod chunkSize = 0 \<and>
         srv j (chunk_url ids j) = Response 200 (Some rs') \<and> d' \<in> set rs' \<and> d_CVE d' = cv \<and>
         sc = \<lparr>Score = pf (d_EPSS d'), Percentile = pf (d_Percentile d')\<rparr>)"
  proof (rule impI)
    assume a: "fst (FetchScores pf srv ids) cv = Some sc"
    let ?rows = "filter (\<lambda>d. d_CVE d = cv) ?R"
    from a have ne: "?rows \<noteq> []"
      and sc: "sc = \<lparr>Score = pf (d_EPSS (last ?rows)), Percentile = pf (d_Percentile (last ?rows))\<rparr>"
      unfolding cf by (auto simp: Let_def split: if_splits)
    from ne have "last ?rows \<in> set ?rows" by (rule last_in_set)
    then have l: "last ?rows \<in> set ?R" and cve: "d_CVE (last ?rows) = cv" by auto
    from l obtain j where j: "j \<in> set (chunk_starts 0 (length ids))"
      and m: "last ?rows \<in> set (rows_at srv ids j)" by auto
    from j have "j < length ids \<and> j mod chunkSize = 0" by (simp add: set_chunk_starts)
    then show "\<exists>j rs' d'. j < length ids \<and> j mod chunkSize = 0 \<and>
         srv j (chunk_url ids j) = Response 200 (Some rs') \<and> d' \<in> set rs' \<and> d_CVE d' = cv \<and>
         sc = \<lparr>Score = pf (d_EPSS d'), Percentile = pf (d_Percentile d')\<rparr>"
      using rows_at_mem [OF m] m cve sc
      by (intro exI [of _ j] exI [of _ "rows_at srv ids j"] exI [of _ "last ?rows"]) simp
  qed
  have p3: "(\<forall>i \<in> set (chunk_starts 0 (length ids)). chunk_fails srv ids i) \<longrightarrow>
      fst (FetchScores pf srv ids) = Map.empty"
    using FetchScores_all_fail by blast
  have p4: "isl (result (Scan s (w\<lparr>epss_http := srv\<rparr>) fs)) = isl (result (Scan s w fs))"
    by (rule Scan_isl_epss)
  have p5: "epss_unreachable (epss_http w) \<and> result (Scan s w fs) = Inr findings \<and>
    f \<in> set findings \<and> kev \<in> set (KEVs f) \<longrightarrow>
      EPSSScore kev = Finite 0 \<and> EPSSPercentile kev = Finite 0"
  proof (rule impI)
    assume a: "epss_unreachable (epss_http w) \<and> result (Scan s w fs) = Inr findings \<and>
      f \<in> set findings \<and> kev \<in> set (KEVs f)"
    then have un: "epss_unreachable (epss_http w)" and r: "result (Scan s w fs) = Inr findings"
      and f: "f \<in> set findings" and kev: "kev \<in> set (KEVs f)" by auto
    from Scan_Inr [OF r] f obtain deps cat fs' m st where
      c: "FetchKEVCatalog (sha256hex w) (json_Unmarshal w) (time_Parse w) (cache s) (kev_http w) fs (now w)
            = (Inr cat, fs')" and
      x: "crossref deps cat m (range_order w m) ([], []) = Inr st" and
      fin: "findings = filter_stage (EPSSThreshold (config s))
              (fst (enrich_stage (ParseFloat w) (epss_http w) st))"
      by auto
    have "fst (enrich_stage (ParseFloat w) (epss_http w) st) = fst st"
      using enrich_stage_unreachable [OF un, of "ParseFloat w" "fst st" "snd st"] by simp
    with fin f obtain g where g: "g \<in> set (fst st)" and sub: "set (KEVs f) \<subseteq> set (KEVs g)"
      using filter_stage_mem by metis
    from crossref_kevs [OF x g] kev sub obtain cv where "cat cv = Some kev" by blast
    with FetchKEVCatalog_entries [OF c]
    show "EPSSScore kev = Finite 0 \<and> EPSSPercentile kev = Finite 0" by blast
  qed
  show ?thesis by (intro conjI; (rule p1 p2 p2a p2b p3 p4 p5))
qed

lemma HasKEV_matched: "HasKEV (finding_of deps cat m k) \<longleftrightarrow> matched_of cat m k \<noteq> []"
  by (auto simp: HasKEV_def finding_of_def matched_of_def Let_def filter_empty_conv
           split: option.splits)

text \<open>
  Claim C9. After Step 5, for a catalog fetched by the KEV client, every KEV entry of every
  finding has either no EPSS record under its CVE ID and both fields zero, or both fields
  taken from the one record found under its CVE ID.
\<close>

theorem enrich_both_or_neither:
  "FetchKEVCatalog h json tp c http fs0 t = (Inr cat, fs1) \<Longrightarrow>
   crossref deps cat m ks ([], []) = Inr st \<Longrightarrow>
   f \<in> set (fst (enrich_stage pf srv st)) \<Longrightarrow> kev \<in> set (KEVs f) \<Longrightarrow>
   (case fst (FetchScores pf srv (snd st)) (CVEID kev) of
      None \<Rightarrow> EPSSScore kev = Finite 0 \<and> EPSSPercentile kev = Finite 0
    | Some score \<Rightarrow> EPSSScore kev = Score score \<and> EPSSPercentile kev = Percentile score)"
proof -
  assume c: "FetchKEVCatalog h json tp c http fs0 t = (Inr cat, fs1)"
    and x: "crossref deps cat m ks ([], []) = Inr st"
    and f: "f \<in> set (fst (enrich_stage pf srv st))" and kev: "kev \<in> set (KEVs f)"
  obtain fs al where st: "st = (fs, al)" by (cases st)
  let ?e = "fst (FetchScores pf srv al)"
  have zero: "EPSSScore k0 = Finite 0 \<and> EPSSPercentile k0 = Finite 0" if "g \<in> set fs" "k0 \<in> set (KEVs g)" for g k0
    using crossref_kevs [OF x, of g k0] that st FetchKEVCatalog_entries [OF c] by fastforce
  show ?thesis
  proof (cases "al = []")
    case True
    with f st have "f \<in> set fs" by (simp add: enrich_stage_def)
    from zero [OF this kev] True st show ?thesis
      by (simp add: FetchScores_def)
  next
    case False
    with f st obtain g where g: "g \<in> set fs" and fk: "KEVs f = map (enrich_kev ?e) (KEVs g)"
      by (auto simp: enrich_stage_def enrich_def Let_def)
    from kev fk obtain k0 where k0: "k0 \<in> set (KEVs g)" and k: "kev = enrich_kev ?e k0" by auto
    from zero [OF g k0] show ?thesis
      unfolding k st by (simp add: enrich_kev_def split: option.splits)
  qed
qed

text \<open>
  Claim C3, as amended. A scan calls the EPSS client at most once. When the stages before
  Step 5 succeed, the matched list is, for each visited dependency index in order, the IDs
  of its CVE records that are in the KEV catalog, one per record; the client is called
  exactly once with that very list when it is non-empty, and not at all when it is empty.
  The list is not deduplicated.
\<close>

theorem epss_called_once_with_matched_list:
  "length (epss_calls (Scan s w fs)) \<le> 1 \<and>
   (discover w = Inr deps \<and> deps \<noteq> [] \<and>
    FetchKEVCatalog (sha256hex w) (json_Unmarshal w) (time_Parse w) (cache s) (kev_http w) fs (now w)
      = (Inr cat, fs') \<and>
    QueryBatch (osv_http w) deps = Inr m \<and>
    crossref deps cat m (range_order w m) ([], []) = Inr (findings, allKEVCVEs) \<longrightarrow>
      allKEVCVEs = concat (map (matched_of cat m) (range_order w m)) \<and>
      epss_calls (Scan s w fs) = (if allKEVCVEs = [] then [] else [allKEVCVEs]))"
proof (intro conjI impI)
  show "length (epss_calls (Scan s w fs)) \<le> 1"
    by (simp add: Scan_def enrich_stage_def Let_def split: sum.splits prod.splits if_splits)
next
  assume a: "discover w = Inr deps \<and> deps \<noteq> [] \<and>
    FetchKEVCatalog (sha256hex w) (json_Unmarshal w) (time_Parse w) (cache s) (kev_http w) fs (now w)
      = (Inr cat, fs') \<and>
    QueryBatch (osv_http w) deps = Inr m \<and>
    crossref deps cat m (range_order w m) ([], []) = Inr (findings, allKEVCVEs)"
  then show "allKEVCVEs = concat (map (matched_of cat m) (range_order w m))"
    by (auto simp: crossref_eq split: if_splits)
  from a have "Scan s w fs =
     \<lparr>result = Inr (filter_stage (EPSSThreshold (config s))
                        (fst (enrich_stage (ParseFloat w) (epss_http w) (findings, allKEVCVEs)))),
      epss_calls = snd (enrich_stage (ParseFloat w) (epss_http w) (findings, allKEVCVEs)),
      fs_after = fs'\<rparr>"
    by (intro Scan_success) auto
  then show "epss_calls (Scan s w fs) = (if allKEVCVEs = [] then [] else [allKEVCVEs])"
    by (simp add: enrich_stage_def Let_def)
qed

lemma sorted_range:
  "valid_range ks m \<Longrightarrow> sorted ks \<Longrightarrow> ks = sorted_list_of_set (dom m)"
  unfolding valid_range_def
  by (metis sorted_list_of_set.idem_if_sorted_distinct)

text \<open>
  Claim C2, as amended. For a fixed input and a fixed order of the iteration over the OSV
  result map, Step 4 returns the findings of the visited indices that have a KEV match, in
  the order of the iteration. Two runs, whose iterations may visit the keys in different
  orders, return the same findings up to order, and one fails exactly when the other does.
  When the keys are visited in ascending order, the findings are in the order of the
  positional index.
\<close>

theorem crossref_follows_range_order:
  "(crossref deps cat m ks ([], []) = Inr (findings, al) \<longrightarrow>
      findings = filter HasKEV (map (finding_of deps cat m) ks)) \<and>
   (valid_range ks1 m \<and> valid_range ks2 m \<and>
    crossref deps cat m ks1 ([], []) = Inr (fs1, al1) \<and>
    crossref deps cat m ks2 ([], []) = Inr (fs2, al2) \<longrightarrow> mset fs1 = mset fs2) \<and>
   (valid_range ks1 m \<and> valid_range ks2 m \<longrightarrow>
      isl (crossref deps cat m ks1 ([], [])) = isl (crossref deps cat m ks2 ([], []))) \<and>
   (valid_range ks m \<and> sorted ks \<and> crossref deps cat m ks ([], []) = Inr (findings, al) \<longrightarrow>
      findings = filter HasKEV (map (finding_of deps cat m) (sorted_list_of_set (dom m))))"
proof (intro conjI impI)
  assume "crossref deps cat m ks ([], []) = Inr (findings, al)"
  then show "findings = filter HasKEV (map (finding_of deps cat m) ks)"
    by (auto simp: crossref_eq split: if_splits)
next
  assume a: "valid_range ks1 m \<and> valid_range ks2 m \<and>
    crossref deps cat m ks1 ([], []) = Inr (fs1, al1) \<and>
    crossref deps cat m ks2 ([], []) = Inr (fs2, al2)"
  then have "mset ks1 = mset ks2"
    by (metis valid_range_def set_eq_iff_mset_eq_distinct)
  then have "mset (filter HasKEV (map (finding_of deps cat m) ks1)) =
             mset (filter HasKEV (map (finding_of deps cat m) ks2))"
    by (metis mset_filter mset_map)
  moreover from a have "fs1 = filter HasKEV (map (finding_of deps cat m) ks1)"
    "fs2 = filter HasKEV (map (finding_of deps cat m) ks2)"
    by (auto simp: crossref_eq split: if_splits)
  ultimately show "mset fs1 = mset fs2" by simp
next
  assume "valid_range ks1 m \<and> valid_range ks2 m"
  then have "set ks1 = set ks2" by (simp add: valid_range_def)
  then show "isl (crossref deps cat m ks1 ([], [])) = isl (crossref deps cat m ks2 ([], []))"
    by (auto simp: crossref_eq)
next
  assume a: "valid_range ks m \<and> sorted ks \<and> crossref deps cat m ks ([], []) = Inr (findings, al)"
  then have "ks = sorted_list_of_set (dom m)" by (simp add: sorted_range)
  moreover from a have "findings = filter HasKEV (map (finding_of deps cat m) ks)"
    by (auto simp: crossref_eq split: if_splits)
  ultimately show "findings = filter HasKEV (map (finding_of deps cat m) (sorted_list_of_set (dom m)))"
    by simp
qed

lemma scored_mem: "kev_3281_scored \<in> set (KEVs (scored (Finite (1 / 200)) (Finite (1 / 5)) finding_django))"
  by (simp add: scored_def finding_django_def kev_3281_scored_def)

theorem Scan_findings_have_KEV_witness:
  "result (Scan demo_scanner demo_env demo_fs) =
     Inr [scored (Finite (1 / 200)) (Finite (1 / 5)) finding_django, scored (Finite (1 / 200)) (Finite (1 / 5)) finding_flask] \<and>
   scored (Finite (1 / 200)) (Finite (1 / 5)) finding_flask \<in>
     set [scored (Finite (1 / 200)) (Finite (1 / 5)) finding_django, scored (Finite (1 / 200)) (Finite (1 / 5)) finding_flask] \<and>
   KEVs (scored (Finite (1 / 200)) (Finite (1 / 5)) finding_flask) \<noteq> [] \<and>
   (\<exists>deps cat fs' m k.
        discover demo_env = Inr deps \<and>
        FetchKEVCatalog (sha256hex demo_env) (json_Unmarshal demo_env) (time_Parse demo_env)
          (cache demo_scanner) (kev_http demo_env) demo_fs (now demo_env) = (Inr cat, fs') \<and>
        QueryBatch (osv_http demo_env) deps = Inr m \<and>
        k < length deps \<and> Dependency (scored (Finite (1 / 200)) (Finite (1 / 5)) finding_flask) = deps ! k \<and>
        m k = Some (CVEs (scored (Finite (1 / 200)) (Finite (1 / 5)) finding_flask)) \<and>
        (\<exists>cve \<in> set (CVEs (scored (Finite (1 / 200)) (Finite (1 / 5)) finding_flask)). cat (ID cve) \<noteq> None))"
proof -
  have r: "result (Scan demo_scanner demo_env demo_fs) =
     Inr [scored (Finite (1 / 200)) (Finite (1 / 5)) finding_django, scored (Finite (1 / 200)) (Finite (1 / 5)) finding_flask]"
    by (simp add: demo_scan_up)
  have m: "scored (Finite (1 / 200)) (Finite (1 / 5)) finding_flask \<in>
     set [scored (Finite (1 / 200)) (Finite (1 / 5)) finding_django, scored (Finite (1 / 200)) (Finite (1 / 5)) finding_flask]"
    by simp
  note t = Scan_findings_have_KEV [OF r m]
  show ?thesis
    by (intro conjI; (rule r m t [THEN conjunct1] t [THEN conjunct2]))
qed

text \<open>
  Claim C2 as stated fails: with two dependencies that both match, the iteration orders
  \<open>0, 1\<close> and \<open>1, 0\<close> over the same OSV result map give different finding sequences, at the
  stage and for the whole scan.
\<close>

theorem crossref_order_counterexample:
  "valid_range [0, Suc 0] demo_cves \<and> valid_range [Suc 0, 0] demo_cves \<and>
   crossref [django, flask] demo_catalog demo_cves [0, Suc 0] ([], [])
     = Inr ([finding_django, finding_flask], [''CVE-2021-3281'', ''CVE-2021-3281'']) \<and>
   crossref [django, flask] demo_catalog demo_cves [Suc 0, 0] ([], [])
     = Inr ([finding_flask, finding_django], [''CVE-2021-3281'', ''CVE-2021-3281'']) \<and>
   [finding_django, finding_flask] \<noteq> [finding_flask, finding_django] \<and>
   result (Scan demo_scanner demo_env demo_fs) \<noteq> result (Scan demo_scanner demo_env_rev demo_fs)"
proof -
  have "demo_env_rev = demo_env\<lparr>epss_http := epss_up, range_order := (\<lambda>m. [Suc 0, 0])\<rparr>"
    by (simp add: demo_env_rev_def demo_env_def)
  with demo_scan [OF demo_crossref(2), of "Finite 0" epss_up]
  have "Scan demo_scanner demo_env_rev demo_fs =
     \<lparr>result = Inr (filter_stage (Finite 0) (fst (enrich_stage demo_ParseFloat epss_up
          ([finding_flask, finding_django], [''CVE-2021-3281'', ''CVE-2021-3281''])))),
      epss_calls = snd (enrich_stage demo_ParseFloat epss_up
          ([finding_flask, finding_django], [''CVE-2021-3281'', ''CVE-2021-3281''])),
      fs_after = demo_fs\<rparr>"
    by (simp add: demo_scanner_same)
  then have rev: "result (Scan demo_scanner demo_env_rev demo_fs) =
      Inr [scored (Finite (1 / 200)) (Finite (1 / 5)) finding_flask, scored (Finite (1 / 200)) (Finite (1 / 5)) finding_django]"
    by (simp add: enrich_stage_def demo_epss_up filter_stage_zero enrich_def enrich_kev_def scored_def
        finding_django_def finding_flask_def kev_3281_def toKEVInfo_def vuln_3281_def)
  have ne: "result (Scan demo_scanner demo_env demo_fs) \<noteq> result (Scan demo_scanner demo_env_rev demo_fs)"
    unfolding rev demo_scan_up
    by (simp add: scored_def finding_django_def finding_flask_def django_def flask_def)
  show ?thesis
    by (intro conjI; (rule valid_demo demo_crossref finding_ne ne))
qed

theorem crossref_follows_range_order_witness:
  "crossref [django, flask] demo_catalog demo_cves [Suc 0, 0] ([], [])
     = Inr ([finding_flask, finding_django], [''CVE-2021-3281'', ''CVE-2021-3281'']) \<and>
   [finding_flask, finding_django] =
     filter HasKEV (map (finding_of [django, flask] demo_catalog demo_cves) [Suc 0, 0]) \<and>
   valid_range [0, Suc 0] demo_cves \<and> valid_range [Suc 0, 0] demo_cves \<and>
   crossref [django, flask] demo_catalog demo_cves [0, Suc 0] ([], [])
     = Inr ([finding_django, finding_flask], [''CVE-2021-3281'', ''CVE-2021-3281'']) \<and>
   mset [finding_django, finding_flask] = mset [finding_flask, finding_django] \<and>
   isl (crossref [django, flask] demo_catalog demo_cves [0, Suc 0] ([], [])) =
     isl (crossref [django, flask] demo_catalog demo_cves [Suc 0, 0] ([], [])) \<and>
   sorted [0, Suc 0] \<and>
   [finding_django, finding_flask] =
     filter HasKEV (map (finding_of [django, flask] demo_catalog demo_cves)
                        (sorted_list_of_set (dom demo_cves)))"
proof -
  note t = crossref_follows_range_order [of "[django, flask]" demo_catalog demo_cves "[Suc 0, 0]"
      "[finding_flask, finding_django]" "[''CVE-2021-3281'', ''CVE-2021-3281'']"
      "[0, Suc 0]" "[Suc 0, 0]" "[finding_django, finding_flask]"
      "[''CVE-2021-3281'', ''CVE-2021-3281'']" "[finding_flask, finding_django]"
      "[''CVE-2021-3281'', ''CVE-2021-3281'']"]
  note u = crossref_follows_range_order [of "[django, flask]" demo_catalog demo_cves "[0, Suc 0]"
      "[finding_django, finding_flask]" "[''CVE-2021-3281'', ''CVE-2021-3281'']"
      "[0, Suc 0]" "[Suc 0, 0]" "[finding_django, finding_flask]"
      "[''CVE-2021-3281'', ''CVE-2021-3281'']" "[finding_flask, finding_django]"
      "[''CVE-2021-3281'', ''CVE-2021-3281'']"]
  have a: "[finding_flask, finding_django] =
     filter HasKEV (map (finding_of [django, flask] demo_catalog demo_cves) [Suc 0, 0])"
    by (rule t [THEN conjunct1, THEN mp, OF demo_crossref(2)])
  have b: "mset [finding_django, finding_flask] = mset [finding_flask, finding_django]"
    using t [THEN conjunct2, THEN conjunct1] valid_demo demo_crossref by blast
  have c: "isl (crossref [django, flask] demo_catalog demo_cves [0, Suc 0] ([], [])) =
     isl (crossref [django, flask] demo_catalog demo_cves [Suc 0, 0] ([], []))"
    using t [THEN conjunct2, THEN conjunct2, THEN conjunct1] valid_demo by blast
  have so: "sorted [0, Suc 0]" by simp
  have d: "[finding_django, finding_flask] =
     filter HasKEV (map (finding_of [django, flask] demo_catalog demo_cves)
                        (sorted_list_of_set (dom demo_cves)))"
    using u [THEN conjunct2, THEN conjunct2, THEN conjunct2] valid_demo(1) so demo_crossref(1)
    by blast
  show ?thesis
    by (intro conjI; (rule demo_crossref valid_demo a b c so d))
qed

text \<open>
  Claim C3 as stated fails: when two dependencies match the same KEV CVE, the list passed to
  the EPSS client holds that CVE ID twice.
\<close>

theorem epss_ids_not_deduplicated_counterexample:
  "epss_calls (Scan demo_scanner demo_env demo_fs) = [[''CVE-2021-3281'', ''CVE-2021-3281'']] \<and>
   \<not> distinct [''CVE-2021-3281'', ''CVE-2021-3281'']"
  by (simp add: demo_scan_up)

theorem epss_called_once_with_matched_list_witness:
  "discover demo_env = Inr [django, flask] \<and> [django, flask] \<noteq> [] \<and>
   FetchKEVCatalog (sha256hex demo_env) (json_Unmarshal demo_env) (time_Parse demo_env)
     (cache demo_scanner) (kev_http demo_env) demo_fs (now demo_env) = (Inr demo_catalog, demo_fs) \<and>
   QueryBatch (osv_http demo_env) [django, flask] = Inr demo_cves \<and>
   crossref [django, flask] demo_catalog demo_cves (range_order demo_env demo_cves) ([], [])
     = Inr ([finding_django, finding_flask], [''CVE-2021-3281'', ''CVE-2021-3281'']) \<and>
   [''CVE-2021-3281'', ''CVE-2021-3281''] =
     concat (map (matched_of demo_catalog demo_cves) (range_order demo_env demo_cves)) \<and>
   epss_calls (Scan demo_scanner demo_env demo_fs) = [[''CVE-2021-3281'', ''CVE-2021-3281'']] \<and>
   length (epss_calls (Scan demo_scanner demo_env demo_fs)) \<le> 1"
proof -
  have d: "discover demo_env = Inr [django, flask]" by (simp add: demo_env_def)
  have n: "[django, flask] \<noteq> []" by simp
  have f: "FetchKEVCatalog (sha256hex demo_env) (json_Unmarshal demo_env) (time_Parse demo_env)
     (cache demo_scanner) (kev_http demo_env) demo_fs (now demo_env) = (Inr demo_catalog, demo_fs)"
    by (simp add: demo_env_def demo_scanner_def demo_fetch)
  have q: "QueryBatch (osv_http demo_env) [django, flask] = Inr demo_cves"
    by (simp add: demo_env_def demo_query)
  have x: "crossref [django, flask] demo_catalog demo_cves (range_order demo_env demo_cves) ([], [])
     = Inr ([finding_django, finding_flask], [''CVE-2021-3281'', ''CVE-2021-3281''])"
    by (simp add: demo_env_def demo_crossref del: crossref.simps)
  note t = epss_called_once_with_matched_list [of demo_scanner demo_env demo_fs "[django, flask]"
      demo_catalog demo_fs demo_cves "[finding_django, finding_flask]"
      "[''CVE-2021-3281'', ''CVE-2021-3281'']"]
  have one: "length (epss_calls (Scan demo_scanner demo_env demo_fs)) \<le> 1"
    by (rule t [THEN conjunct1])
  from t [THEN conjunct2] d n f q x
  have c: "[''CVE-2021-3281'', ''CVE-2021-3281''] =
     concat (map (matched_of demo_catalog demo_cves) (range_order demo_env demo_cves)) \<and>
     epss_calls (Scan demo_scanner demo_env demo_fs) =
       (if [''CVE-2021-3281'', ''CVE-2021-3281''] = [] then []
        else [[''CVE-2021-3281'', ''CVE-2021-3281'']])"
    by blast
  then have c2: "epss_calls (Scan demo_scanner demo_env demo_fs) = [[''CVE-2021-3281'', ''CVE-2021-3281'']]"
    by simp
  show ?thesis
    by (intro conjI; (rule d n f q x c [THEN conjunct1] c2 one))
qed

theorem filter_stage_monotone_witness:
  "f64_le (Finite (1 / 10)) (Finite (1 / 2)) \<and>
   total_kevs (filter_stage (Finite (1 / 2)) [scored (Finite (1 / 5)) (Finite (1 / 2)) finding_django])
     \<le> total_kevs (filter_stage (Finite (1 / 10)) [scored (Finite (1 / 5)) (Finite (1 / 2)) finding_django]) \<and>
   total_kevs (filter_stage (Finite (1 / 2)) [scored (Finite (1 / 5)) (Finite (1 / 2)) finding_django]) = 0 \<and>
   total_kevs (filter_stage (Finite (1 / 10)) [scored (Finite (1 / 5)) (Finite (1 / 2)) finding_django]) = 1 \<and>
   filter_stage (Finite 0) [scored (Finite (1 / 5)) (Finite (1 / 2)) finding_django]
     = [scored (Finite (1 / 5)) (Finite (1 / 2)) finding_django] \<and>
   f64_gt (Finite (1 / 2)) (Finite 0) \<and>
   concat (map KEVs (filter_stage (Finite (1 / 2)) [scored (Finite (1 / 5)) (Finite (1 / 2)) finding_django]))
     = [] \<and>
   f64_gt (Finite (1 / 10)) (Finite 0) \<and>
   concat (map KEVs (filter_stage (Finite (1 / 10)) [scored NaN (Finite (1 / 5)) finding_django,
                                                     scored (Finite (1 / 5)) (Finite (1 / 2)) finding_django]))
     = KEVs (scored (Finite (1 / 5)) (Finite (1 / 2)) finding_django)"
proof -
  let ?F = "scored (Finite (1 / 5)) (Finite (1 / 2)) finding_django"
  let ?N = "scored NaN (Finite (1 / 5)) finding_django"
  note t = filter_stage_monotone [of "Finite (1 / 10)" "Finite (1 / 2)" "[?F]" "Finite (1 / 2)"]
  note u = filter_stage_monotone [of "Finite (1 / 10)" "Finite (1 / 2)" "[?N, ?F]" "Finite (1 / 10)"]
  have le: "f64_le (Finite (1 / 10)) (Finite (1 / 2))" by simp
  have pos: "f64_gt (Finite (1 / 2)) (Finite 0)" by (simp add: f64_gt_def)
  have pos': "f64_gt (Finite (1 / 10)) (Finite 0)" by (simp add: f64_gt_def)
  have a: "total_kevs (filter_stage (Finite (1 / 2)) [?F]) \<le> total_kevs (filter_stage (Finite (1 / 10)) [?F])"
    by (rule t [THEN conjunct1, THEN mp, OF le])
  have b: "filter_stage (Finite 0) [?F] = [?F]"
    by (rule t [THEN conjunct2, THEN conjunct1])
  have c: "concat (map KEVs (filter_stage (Finite (1 / 2)) [?F])) = []"
    unfolding t [THEN conjunct2, THEN conjunct2, THEN mp, OF pos]
    by (simp add: scored_def finding_django_def)
  have c': "concat (map KEVs (filter_stage (Finite (1 / 10)) [?N, ?F])) = KEVs ?F"
    unfolding u [THEN conjunct2, THEN conjunct2, THEN mp, OF pos']
    by (simp add: scored_def finding_django_def)
  have v0: "total_kevs (filter_stage (Finite (1 / 2)) [?F]) = 0"
    by (simp add: filter_stage_def keep_finding_def keep_kev_def scored_def finding_django_def
        total_kevs_def f64_gt_def f64_ge_def)
  have v1: "total_kevs (filter_stage (Finite (1 / 10)) [?F]) = 1"
    by (simp add: filter_stage_def keep_finding_def keep_kev_def scored_def finding_django_def
        total_kevs_def f64_gt_def f64_ge_def)
  show ?thesis
    by (intro conjI; (rule le pos pos' a b c c' v0 v1))
qed

lemma demo_epss_nan:
  "FetchScores demo_ParseFloat epss_nan [''CVE-2021-3281'', ''CVE-2021-3281'']
     = (Map.empty(''CVE-2021-3281'' \<mapsto> \<lparr>Score = NaN, Percentile = Finite (1 / 5)\<rparr>), None)"
  by (simp add: FetchScores_def FetchScores_loop.simps chunkSize_def epss_nan_def store_row_def
      epss_row_nan_def demo_ParseFloat_def)

lemma demo_enrich_nan:
  "fst (enrich_stage demo_ParseFloat epss_nan
         ([finding_django, finding_flask], [''CVE-2021-3281'', ''CVE-2021-3281'']))
    = [scored NaN (Finite (1 / 5)) finding_django, scored NaN (Finite (1 / 5)) finding_flask]"
  by (simp add: enrich_stage_def demo_epss_nan enrich_def enrich_kev_def scored_def
      finding_django_def finding_flask_def kev_3281_def toKEVInfo_def vuln_3281_def)

lemma filter_nan:
  "filter_stage (Finite (1 / 10))
     [scored NaN (Finite (1 / 5)) finding_django, scored NaN (Finite (1 / 5)) finding_flask] = []"
  "filter_stage (Finite (1 / 10)) [scored NaN (Finite (1 / 5)) finding_django] = []"
  by (simp_all add: filter_stage_def keep_finding_def keep_kev_def scored_def finding_django_def
      finding_flask_def f64_gt_def f64_ge_def)

text \<open>
  Claim C4 as stated fails in its last part: the EPSS row \<open>"epss": "NaN"\<close> parses to a NaN
  score; under the positive threshold \<open>0.1\<close> the entry is removed, although its score is not
  strictly below the threshold, and the scan returns no finding.
\<close>

theorem filter_removes_NaN_counterexample:
  "f64_gt (Finite (1 / 10)) (Finite 0) \<and>
   kev_3281_nan \<in> set (KEVs (scored NaN (Finite (1 / 5)) finding_django)) \<and>
   EPSSScore kev_3281_nan = NaN \<and>
   \<not> f64_lt (EPSSScore kev_3281_nan) (Finite (1 / 10)) \<and>
   filter_stage (Finite (1 / 10)) [scored NaN (Finite (1 / 5)) finding_django] = [] \<and>
   fst (enrich_stage (ParseFloat demo_env_nan) (epss_http demo_env_nan)
         ([finding_django, finding_flask], [''CVE-2021-3281'', ''CVE-2021-3281'']))
    = [scored NaN (Finite (1 / 5)) finding_django, scored NaN (Finite (1 / 5)) finding_flask] \<and>
   result (Scan demo_scanner_tenth demo_env_nan demo_fs) = Inr []"
proof -
  have p: "f64_gt (Finite (1 / 10)) (Finite 0)" by (simp add: f64_gt_def)
  have m: "kev_3281_nan \<in> set (KEVs (scored NaN (Finite (1 / 5)) finding_django))"
    by (simp add: scored_def finding_django_def kev_3281_nan_def)
  have n: "EPSSScore kev_3281_nan = NaN" by (simp add: kev_3281_nan_def)
  have l: "\<not> f64_lt (EPSSScore kev_3281_nan) (Finite (1 / 10))" by (simp add: n)
  have e: "demo_env_nan = demo_env\<lparr>epss_http := epss_nan, range_order := (\<lambda>m. [0, Suc 0])\<rparr>"
    by (simp add: demo_env_nan_def demo_env_def)
  have en: "fst (enrich_stage (ParseFloat demo_env_nan) (epss_http demo_env_nan)
         ([finding_django, finding_flask], [''CVE-2021-3281'', ''CVE-2021-3281'']))
    = [scored NaN (Finite (1 / 5)) finding_django, scored NaN (Finite (1 / 5)) finding_flask]"
    using demo_enrich_nan by (simp add: demo_env_nan_def demo_env_def)
  have r: "result (Scan demo_scanner_tenth demo_env_nan demo_fs) = Inr []"
    using demo_scan [OF demo_crossref(1), of "Finite (1 / 10)" epss_nan]
    by (simp add: e [symmetric] demo_scanner_tenth_def demo_enrich_nan filter_nan)
  show ?thesis
    by (intro conjI; (rule p m n l filter_nan(2) en r))
qed

theorem Cache_round_trip_witness:
  "Set demo_hash demo_cache demo_fs 1000 kevURL [1, 2, 3] = Inr demo_fs_written \<and>
   time_Since 2000 1000 \<le> TTL demo_cache \<and>
   Get demo_hash demo_cache demo_fs_written 2000 kevURL = ([1, 2, 3], True) \<and>
   TTL demo_cache < time_Since 86400000002000 1000 \<and>
   Get demo_hash demo_cache demo_fs_written 86400000002000 kevURL = ([], False) \<and>
   files demo_fs_written (Path demo_hash demo_cache kevURL) = Some \<lparr>content = [1, 2, 3], modTime = 1000\<rparr> \<and>
   TTL demo_cache < time_Since 86400000002000 (modTime \<lparr>content = [1, 2, 3], modTime = 1000\<rparr>)"
proof -
  have s: "Set demo_hash demo_cache demo_fs 1000 kevURL [1, 2, 3] = Inr demo_fs_written"
    by (simp add: Set_def os_WriteFile_def Path_def demo_cache_def demo_fs_def demo_fs_written_def)
  have w: "time_Since 2000 1000 \<le> TTL demo_cache"
    by (simp add: time_Since_def demo_cache_def)
  have l: "TTL demo_cache < time_Since 86400000002000 1000"
    by (simp add: time_Since_def demo_cache_def)
  have fl: "files demo_fs_written (Path demo_hash demo_cache kevURL) = Some \<lparr>content = [1, 2, 3], modTime = 1000\<rparr>"
    by (simp add: demo_fs_written_def)
  have l2: "TTL demo_cache < time_Since 86400000002000 (modTime \<lparr>content = [1, 2, 3], modTime = 1000\<rparr>)"
    using l by simp
  note t1 = Cache_round_trip [of demo_hash demo_cache demo_fs 1000 kevURL "[1, 2, 3]" demo_fs_written
      2000 demo_fs_written "\<lparr>content = [1, 2, 3], modTime = 1000\<rparr>" 86400000002000]
  note t2 = Cache_round_trip [of demo_hash demo_cache demo_fs 1000 kevURL "[1, 2, 3]" demo_fs_written
      86400000002000 demo_fs_written "\<lparr>content = [1, 2, 3], modTime = 1000\<rparr>" 86400000002000]
  have g1: "Get demo_hash demo_cache demo_fs_written 2000 kevURL = ([1, 2, 3], True)"
    by (rule t1 [THEN conjunct1, THEN mp, OF s, THEN conjunct1, THEN mp, OF w])
  have g2: "Get demo_hash demo_cache demo_fs_written 86400000002000 kevURL = ([], False)"
    by (rule t2 [THEN conjunct1, THEN mp, OF s, THEN conjunct2, THEN mp, OF l])
  show ?thesis
    by (intro conjI; (rule s w l fl l2 g1 g2))
qed

lemma chunk_starts_101: "chunk_starts 0 (length ids_101) = [0, 100]"
  by (simp add: ids_101_def chunk_starts_step chunk_starts_done chunkSize_def)

lemma rows_second_only:
  "rows_at epss_second_only ids_101 0 = []"
  "rows_at epss_second_only ids_101 100 = [epss_row]"
  by (simp_all add: rows_at_def epss_second_only_def)

theorem FetchScores_skips_failed_chunks_witness:
  "snd (FetchScores demo_ParseFloat epss_second_only ids_101) = None \<and>
   fst (FetchScores demo_ParseFloat epss_second_only ids_101) ''CVE-2021-3281''
     = Some \<lparr>Score = Finite (1 / 200), Percentile = Finite (1 / 5)\<rparr> \<and>
   fst (FetchScores demo_ParseFloat epss_second_only ids_101) ''CVE-1999-0001'' = None \<and>
   epss_second_only 0 (chunk_url ids_101 0) = TransportError \<and>
   epss_second_only 100 (chunk_url ids_101 100) = Response 200 (Some [epss_row]) \<and>
   fst (FetchScores demo_ParseFloat epss_down [''CVE-2021-3281'', ''CVE-2021-3281'']) = Map.empty \<and>
   snd (FetchScores demo_ParseFloat epss_down [''CVE-2021-3281'', ''CVE-2021-3281'']) = None \<and>
   epss_http demo_env_down 0 (chunk_url [''CVE-2021-3281'', ''CVE-2021-3281''] 0) = TransportError \<and>
   result (Scan demo_scanner demo_env_down demo_fs) = Inr [finding_django, finding_flask] \<and>
   finding_django \<in> set [finding_django, finding_flask] \<and>
   kev_3281 \<in> set (KEVs finding_django) \<and>
   EPSSScore kev_3281 = Finite 0 \<and> EPSSPercentile kev_3281 = Finite 0"
proof -
  note t = FetchScores_skips_failed_chunks [of demo_ParseFloat epss_down
      "[''CVE-2021-3281'', ''CVE-2021-3281'']" 0 "[]" epss_row "''CVE-2021-3281''"
      "\<lparr>Score = Finite (1 / 200), Percentile = Finite (1 / 5)\<rparr>"
      demo_scanner demo_env_down demo_fs
      "[finding_django, finding_flask]" finding_django kev_3281]
  note u = FetchScores_skips_failed_chunks [of demo_ParseFloat epss_second_only ids_101
      100 "[epss_row]" epss_row "''CVE-2021-3281''"
      "\<lparr>Score = Finite (1 / 200), Percentile = Finite (1 / 5)\<rparr>"
      demo_scanner demo_env_down demo_fs
      "[finding_django, finding_flask]" finding_django kev_3281]
  have s0: "epss_second_only 0 (chunk_url ids_101 0) = TransportError"
    by (simp add: epss_second_only_def)
  have s1: "epss_second_only 100 (chunk_url ids_101 100) = Response 200 (Some [epss_row])"
    by (simp add: epss_second_only_def)
  have u1: "snd (FetchScores demo_ParseFloat epss_second_only ids_101) = None"
    by (rule u [THEN conjunct1])
  have u2: "fst (FetchScores demo_ParseFloat epss_second_only ids_101) ''CVE-2021-3281''
     = Some \<lparr>Score = Finite (1 / 200), Percentile = Finite (1 / 5)\<rparr>"
    unfolding u [THEN conjunct2, THEN conjunct1, THEN spec, of "''CVE-2021-3281''"]
    by (simp add: chunk_starts_101 rows_second_only epss_row_def demo_ParseFloat_def)
  have u3: "fst (FetchScores demo_ParseFloat epss_second_only ids_101) ''CVE-1999-0001'' = None"
    unfolding u [THEN conjunct2, THEN conjunct1, THEN spec, of "''CVE-1999-0001''"]
    by (simp add: chunk_starts_101 rows_second_only epss_row_def)
  have h1: "\<forall>i \<in> set (chunk_starts 0 (length [''CVE-2021-3281'', ''CVE-2021-3281''])).
      chunk_fails epss_down [''CVE-2021-3281'', ''CVE-2021-3281''] i"
    by (simp add: chunk_fails_def epss_down_def)
  have h2: "epss_unreachable (epss_http demo_env_down)"
    by (simp add: epss_unreachable_def demo_env_down_def demo_env_def epss_down_def)
  have e: "demo_env_down = demo_env\<lparr>epss_http := epss_down, range_order := (\<lambda>m. [0, Suc 0])\<rparr>"
    by (simp add: demo_env_down_def demo_env_def)
  have h3: "result (Scan demo_scanner demo_env_down demo_fs) = Inr [finding_django, finding_flask]"
    using demo_scan [OF demo_crossref(1), of "Finite 0" epss_down]
    by (simp add: e [symmetric] demo_scanner_same enrich_stage_def demo_epss_down enrich_empty
        filter_stage_zero)
  have h4: "finding_django \<in> set [finding_django, finding_flask]" by simp
  have h5: "kev_3281 \<in> set (KEVs finding_django)" by (simp add: finding_django_def)
  have c1: "snd (FetchScores demo_ParseFloat epss_down [''CVE-2021-3281'', ''CVE-2021-3281'']) = None"
    by (rule t [THEN conjunct1])
  note t5 = t [THEN conjunct2, THEN conjunct2, THEN conjunct2, THEN conjunct2]
  have c3: "fst (FetchScores demo_ParseFloat epss_down [''CVE-2021-3281'', ''CVE-2021-3281'']) = Map.empty"
    by (rule t5 [THEN conjunct1, THEN mp, OF h1])
  have c5: "EPSSScore kev_3281 = Finite 0 \<and> EPSSPercentile kev_3281 = Finite 0"
    using t5 [THEN conjunct2, THEN conjunct2] h2 h3 h4 h5 by blast
  have h6: "epss_http demo_env_down 0 (chunk_url [''CVE-2021-3281'', ''CVE-2021-3281''] 0) = TransportError"
    by (simp add: demo_env_down_def demo_env_def epss_down_def)
  show ?thesis
    by (intro conjI; (rule u1 u2 u3 s0 s1 h3 h4 h5 h6 c1 c3 c5 [THEN conjunct1] c5 [THEN conjunct2]))
qed

theorem parseKEVData_last_entry_wins_witness:
  "json_Unmarshal demo_env [] = Some kev_doc \<and>
   parseKEVData (json_Unmarshal demo_env) no_date [] = Inr demo_catalog \<and>
   demo_catalog ''CVE-2021-3281'' = Some (toKEVInfo no_date vuln_3281) \<and>
   last (filter (\<lambda>v. v_CVEID v = ''CVE-2021-3281'') (Vulnerabilities kev_doc)) = vuln_3281 \<and>
   no_date (v_DateAdded vuln_3281) = None \<and> DateAdded (toKEVInfo no_date vuln_3281) = 0 \<and>
   no_date (v_DueDate vuln_3281) = None \<and> DueDate (toKEVInfo no_date vuln_3281) = 0"
proof -
  note t = parseKEVData_last_entry_wins [of "json_Unmarshal demo_env" "[]" kev_doc no_date vuln_3281]
  have j: "json_Unmarshal demo_env [] = Some kev_doc" by (simp add: demo_env_def)
  have n: "no_date (v_DateAdded vuln_3281) = None" "no_date (v_DueDate vuln_3281) = None"
    by (simp_all add: no_date_def)
  have l: "last (filter (\<lambda>v. v_CVEID v = ''CVE-2021-3281'') (Vulnerabilities kev_doc)) = vuln_3281"
    by (simp add: kev_doc_def vuln_3281_old_def vuln_3281_def)
  note d1 = t [THEN conjunct2, THEN conjunct1]
  note d2 = t [THEN conjunct2, THEN conjunct2]
  from t [THEN conjunct1, THEN mp, OF j] obtain catalog where pc:
    "parseKEVData (json_Unmarshal demo_env) no_date [] = Inr catalog \<and>
     (\<forall>c. catalog c =
           (if filter (\<lambda>v. v_CVEID v = c) (Vulnerabilities kev_doc) = [] then None
            else Some (toKEVInfo no_date (last (filter (\<lambda>v. v_CVEID v = c) (Vulnerabilities kev_doc))))))" ..
  note p = pc [THEN conjunct1]
  note c = pc [THEN conjunct2]
  have p': "parseKEVData (json_Unmarshal demo_env) no_date [] = Inr demo_catalog"
    by (simp add: demo_env_def demo_parse)
  with p have "catalog = demo_catalog" by simp
  with c [THEN spec, of "''CVE-2021-3281''"] have "demo_catalog ''CVE-2021-3281'' =
      (if filter (\<lambda>v. v_CVEID v = ''CVE-2021-3281'') (Vulnerabilities kev_doc) = [] then None
       else Some (toKEVInfo no_date (last (filter (\<lambda>v. v_CVEID v = ''CVE-2021-3281'') (Vulnerabilities kev_doc)))))"
    by simp
  then have v: "demo_catalog ''CVE-2021-3281'' = Some (toKEVInfo no_date vuln_3281)"
    unfolding l by (simp add: kev_doc_def vuln_3281_old_def vuln_3281_def)
  show ?thesis
    by (intro conjI; (rule j p' v l n d1 [THEN mp, OF n(1)] d2 [THEN mp, OF n(2)]))
qed

theorem enrich_both_or_neither_witness:
  "FetchKEVCatalog demo_hash (json_Unmarshal demo_env) no_date None (Response 200 (Some [])) demo_fs 1000
     = (Inr demo_catalog, demo_fs) \<and>
   crossref [django, flask] demo_catalog demo_cves [0, Suc 0] ([], [])
     = Inr ([finding_django, finding_flask], [''CVE-2021-3281'', ''CVE-2021-3281'']) \<and>
   scored (Finite (1 / 200)) (Finite (1 / 5)) finding_django \<in>
     set (fst (enrich_stage demo_ParseFloat epss_up
                ([finding_django, finding_flask], [''CVE-2021-3281'', ''CVE-2021-3281'']))) \<and>
   kev_3281_scored \<in> set (KEVs (scored (Finite (1 / 200)) (Finite (1 / 5)) finding_django)) \<and>
   fst (FetchScores demo_ParseFloat epss_up [''CVE-2021-3281'', ''CVE-2021-3281'']) (CVEID kev_3281_scored)
     = Some \<lparr>Score = Finite (1 / 200), Percentile = Finite (1 / 5)\<rparr> \<and>
   EPSSScore kev_3281_scored = Score \<lparr>Score = Finite (1 / 200), Percentile = Finite (1 / 5)\<rparr> \<and>
   EPSSPercentile kev_3281_scored = Percentile \<lparr>Score = Finite (1 / 200), Percentile = Finite (1 / 5)\<rparr>"
proof -
  have f: "FetchKEVCatalog demo_hash (json_Unmarshal demo_env) no_date None (Response 200 (Some []))
             demo_fs 1000 = (Inr demo_catalog, demo_fs)"
    by (simp add: demo_env_def demo_fetch)
  have m: "scored (Finite (1 / 200)) (Finite (1 / 5)) finding_django \<in>
     set (fst (enrich_stage demo_ParseFloat epss_up
                ([finding_django, finding_flask], [''CVE-2021-3281'', ''CVE-2021-3281''])))"
    by (simp add: enrich_stage_def demo_epss_up demo_enrich_up)
  have l: "fst (FetchScores demo_ParseFloat epss_up [''CVE-2021-3281'', ''CVE-2021-3281''])
             (CVEID kev_3281_scored) = Some \<lparr>Score = Finite (1 / 200), Percentile = Finite (1 / 5)\<rparr>"
    by (simp add: demo_epss_up kev_3281_scored_def kev_3281_def toKEVInfo_def vuln_3281_def)
  from enrich_both_or_neither [OF f demo_crossref(1) m scored_mem, of ]
  have c: "EPSSScore kev_3281_scored = Score \<lparr>Score = Finite (1 / 200), Percentile = Finite (1 / 5)\<rparr> \<and>
   EPSSPercentile kev_3281_scored = Percentile \<lparr>Score = Finite (1 / 200), Percentile = Finite (1 / 5)\<rparr>"
    by (simp only: snd_conv l option.case)
  show ?thesis
    by (intro conjI; (rule f demo_crossref(1) m scored_mem l c [THEN conjunct1] c [THEN conjunct2]))
qed

end
